theory Spec2Isabelle
  imports Main "HOL-Library.Product_Lexorder"
begin

section \<open>Point and click: frescobaldi\_app/musicview/pointandclick.py\<close>

subsection \<open>Text documents, blocks, cursors and tokens\<close>

text \<open>
  The Qt text document is a sequence of blocks (lines). A block's \<open>length()\<close> counts
  its text and the block separator, and its \<open>position()\<close> is the offset of its first
  character, the sum of the lengths of the blocks before it. Each block carries the
  tokens of its line (the highlighter keeps them in the block's user data), in text order.
  A token has its column \<open>pos\<close> in the block; it is an instance of
  \<open>ly.tokenize.MatchStart\<close> or \<open>ly.tokenize.MatchEnd\<close> with a \<open>matchname\<close>, or of
  neither class.
\<close>

datatype token_class = MatchStart string | MatchEnd string | OtherToken

record token =
  pos :: int
  cls :: token_class

record block =
  block_text :: string
  block_tokens :: "token list"

type_synonym document = "block list"

definition block_length :: "block \<Rightarrow> int" where
  "block_length b = int (length (block_text b)) + 1"

definition block_position :: "document \<Rightarrow> nat \<Rightarrow> int" where
  "block_position doc n = sum_list (map block_length (take n doc))"

text \<open>
  \<open>doc.findBlockByNumber(n)\<close>: the block with number \<open>n\<close>, or an invalid block
  (\<open>None\<close>) when \<open>n\<close> is negative or not below the block count.
\<close>

definition findBlockByNumber :: "document \<Rightarrow> int \<Rightarrow> nat option" where
  "findBlockByNumber doc n = (if 0 \<le> n \<and> n < int (length doc) then Some (nat n) else None)"

text \<open>
  \<open>cursor.block()\<close>: the number of the block that contains a position, \<open>None\<close> for
  the invalid block of a position outside the document.
\<close>

fun findBlock :: "document \<Rightarrow> int \<Rightarrow> nat option" where
  "findBlock [] p = None"
| "findBlock (b # bs) p =
     (if p < 0 then None
      else if p < block_length b then Some 0
      else map_option Suc (findBlock bs (p - block_length b)))"

text \<open>
  \<open>block.position()\<close> of the result of \<open>cursor.block()\<close>; Qt gives 0 for an
  invalid block.
\<close>

definition blk_position :: "document \<Rightarrow> nat option \<Rightarrow> int" where
  "blk_position doc blk = (case blk of None \<Rightarrow> 0 | Some n \<Rightarrow> block_position doc n)"

text \<open>
  The cursor of a query: \<open>hasSelection()\<close> holds when anchor and position differ,
  \<open>selectionStart()\<close> and \<open>selectionEnd()\<close> are the smaller and the larger of the two.
  The cursors a binding stores have no selection and are modelled by their
  \<open>position()\<close> alone.
\<close>

record textcursor =
  anchor :: int
  position :: int

definition hasSelection :: "textcursor \<Rightarrow> bool" where
  "hasSelection c = (anchor c \<noteq> position c)"

definition selectionStart :: "textcursor \<Rightarrow> int" where
  "selectionStart c = min (anchor c) (position c)"

definition selectionEnd :: "textcursor \<Rightarrow> int" where
  "selectionEnd c = max (anchor c) (position c)"

text \<open>
  The three results of \<open>indices\<close>: a Python \<open>slice(start, stop)\<close> (the spec's Match),
  \<open>None\<close> (Indeterminate) and \<open>False\<close> (Clear).
\<close>

datatype outcome = Slice int int | RetNone | RetFalse

subsection \<open>The binary search of \<open>BoundLinks.indices\<close>\<close>

text \<open>
  \<open>findlink\<close> is the local function of \<open>indices\<close>. The list \<open>cursors\<close> holds the
  positions of the bound cursors (\<open>cursors[mid].position()\<close>). The loop
  \<^verbatim>\<open>while lo < hi: mid = (lo + hi) // 2; if pos < cursors[mid].position(): hi = mid
  else: lo = mid + 1\<close> keeps \<open>mid < hi \<le> len(cursors)\<close>, so every read is in range.
  The function returns \<open>lo - 1\<close>, which is \<open>-1\<close> when no cursor is at or before \<open>pos\<close>.
\<close>

function findlink_loop :: "int list \<Rightarrow> int \<Rightarrow> nat \<Rightarrow> nat \<Rightarrow> nat" where
  "findlink_loop cursors p lo hi =
     (if lo < hi then
        (let mid = (lo + hi) div 2 in
         if p < cursors ! mid then findlink_loop cursors p lo mid
         else findlink_loop cursors p (mid + 1) hi)
      else lo)"
  by pat_completeness auto
termination
  by (relation "measure (\<lambda>(cursors, p, lo, hi). hi - lo)") auto

definition findlink :: "int list \<Rightarrow> int \<Rightarrow> int" where
  "findlink cursors p = int (findlink_loop cursors p 0 (length cursors)) - 1"

subsection \<open>The backward token scan of \<open>BoundLinks.indices\<close>\<close>

text \<open>
  Modelled from the spec: \<open>tokeniter.TokenIterator\<close>, the token-stream accessor of the
  text buffer (section 6 of the spec, and the "backward-scanning token iterator" of its
  design notes), whose module is not among the source files. The iterator is
  created on the caret's block, positioned past its last token. \<open>backward(False)\<close>
  yields the tokens of that block from the last to the first and never leaves the block.
  \<open>backward()\<close> continues from the token the iterator stands on towards the start of
  the block, then goes on with the tokens of each previous block, last token first,
  until there is no previous block; \<open>tokens.block\<close> is the block of the token yielded
  last. On an invalid block both yield nothing. Both generators advance the same
  iterator, so the second one starts where the first one stopped. A yielded token is
  paired here with the number of its block.
\<close>

definition backward_in_block :: "document \<Rightarrow> nat option \<Rightarrow> (nat \<times> token) list" where
  "backward_in_block doc blk =
     (case blk of None \<Rightarrow> [] | Some b \<Rightarrow> map (Pair b) (rev (block_tokens (doc ! b))))"

definition backward_before :: "document \<Rightarrow> nat option \<Rightarrow> (nat \<times> token) list" where
  "backward_before doc blk =
     (case blk of None \<Rightarrow> []
      | Some b \<Rightarrow> concat (map (\<lambda>b'. backward_in_block doc (Some b')) (rev [0..<b])))"

text \<open>
  The inner loop (\<open>for token in tokens.backward()\<close>): it looks for the opening token
  of \<open>name\<close>, counting the nesting in \<open>nest\<close>. It returns the token it broke on with
  \<open>found = True\<close>, or \<open>None\<close> when the tokens ran out (\<open>found\<close> stays \<open>False\<close>).
\<close>

fun find_start :: "string \<Rightarrow> int \<Rightarrow> (nat \<times> token) list \<Rightarrow> (nat \<times> token) option" where
  "find_start name nest [] = None"
| "find_start name nest (bt # rest) =
     (if cls (snd bt) = MatchStart name then
        (if nest - 1 = 0 then Some bt else find_start name (nest - 1) rest)
      else if cls (snd bt) = MatchEnd name then find_start name (nest + 1) rest
      else find_start name nest rest)"

text \<open>
  The outer loop (\<open>for token in tokens.backward(False)\<close>) over the tokens of the caret's
  block; \<open>earlier\<close> are the tokens of the previous blocks, which only the inner loop
  reaches. The \<open>break\<close> of line 227 ends the loop at a token that starts at or before
  \<open>prevcol\<close>. The \<open>break\<close> of line 242 is the last statement of the body of the
  \<open>if\<close> of line 229: it ends the loop once the inner loop has run for an end token of a
  slur, phrasing slur or beam that starts at or before \<open>col\<close>. Every other token, one
  that starts after \<open>col\<close> and one that is no such end token, is passed over and the
  loop goes on with the next token to the left.
\<close>

fun scan_tokens :: "int \<Rightarrow> int \<Rightarrow> (nat \<times> token) list \<Rightarrow> (nat \<times> token) list
    \<Rightarrow> (nat \<times> token) option" where
  "scan_tokens prevcol col earlier [] = None"
| "scan_tokens prevcol col earlier (bt # rest) =
     (if pos (snd bt) \<le> prevcol then None
      else if pos (snd bt) \<le> col then
        (case cls (snd bt) of
           MatchEnd name \<Rightarrow>
             (if name \<in> set [''slur'', ''phrasingslur'', ''beam'']
              then find_start name 1 (rest @ earlier)
              else scan_tokens prevcol col earlier rest)
         | _ \<Rightarrow> scan_tokens prevcol col earlier rest)
      else scan_tokens prevcol col earlier rest)"

subsection \<open>\<open>BoundLinks.indices\<close>\<close>

text \<open>
  \<open>cursors\<close> are the positions of \<open>self._cursors\<close>, \<open>doc\<close> is the document they and the
  query cursor \<open>c\<close> belong to.
\<close>

definition indices_selection :: "int list \<Rightarrow> textcursor \<Rightarrow> outcome" where
  "indices_selection cursors c =
     (let e = findlink cursors (selectionEnd c - 1) in
      if e \<ge> 0 then
        (let start0 = findlink cursors (selectionStart c);
             start = (if start0 < 0 \<or> cursors ! nat start0 < selectionStart c
                      then start0 + 1 else start0)
         in if start \<le> e then Slice start (e + 1) else RetFalse)
      else RetFalse)"

text \<open>
  The scan of the point query, lines 219 to 242: \<open>cur2\<close> is the position of the cursor
  found by the binary search, \<open>p\<close> the position of the caret. The result is the block
  and the token on which the inner loop has set \<open>found\<close>, \<open>None\<close> when \<open>found\<close> is
  still \<open>False\<close> after the loops.
\<close>

definition caret_scan :: "document \<Rightarrow> int \<Rightarrow> int \<Rightarrow> (nat \<times> token) option" where
  "caret_scan doc cur2 p =
     (let cur2_block = findBlock doc cur2;
          cursor_block = findBlock doc p;
          prevcol = (if cur2_block = cursor_block
                     then cur2 - blk_position doc cur2_block else - 1);
          col = p - blk_position doc cursor_block
      in scan_tokens prevcol col (backward_before doc cursor_block)
           (backward_in_block doc cursor_block))"

definition indices_point :: "document \<Rightarrow> int list \<Rightarrow> textcursor \<Rightarrow> outcome" where
  "indices_point doc cursors c =
     (let index = findlink cursors (position c) in
      if index < 0 then RetNone
      else
        (let cur2 = cursors ! nat index in
         if cur2 < position c then
           (case caret_scan doc cur2 (position c) of
              Some (tokens_block, token) \<Rightarrow>
                (let index' = findlink cursors (block_position doc tokens_block + pos token)
                 in if index' < 0 \<or> findBlock doc (cursors ! nat index') \<noteq> Some tokens_block
                    then RetNone
                    else Slice index' (index' + 1))
            | None \<Rightarrow>
                (if findBlock doc cur2 \<noteq> findBlock doc (position c) then RetFalse
                 else Slice index (index + 1)))
         else Slice index (index + 1)))"

definition indices :: "document \<Rightarrow> int list \<Rightarrow> textcursor \<Rightarrow> outcome" where
  "indices doc cursors c =
     (if hasSelection c then indices_selection cursors c else indices_point doc cursors c)"

subsection \<open>Parsing textedit URLs\<close>

text \<open>
  \<^verbatim>\<open>textedit_match = re.compile(r"^textedit://(.*?):(\d+):(\d+)(?::\d+)$").match\<close>

  The regular expression is matched as the backtracking matcher does it. \<open>\d+\<close> is
  greedy; each of the three is followed by \<open>:\<close> or by the end, neither of which a
  digit matches, so giving back digits never helps and \<open>\d+\<close> takes the longest run of
  digits, which must not be empty. \<open>$\<close> matches at the end of the string and before a
  newline that ends the string. The lazy group \<open>(.*?)\<close> tries the shortest path first
  and grows it by one character, any but a newline, as long as the rest does not match.
  The last group \<open>(?::\d+)\<close> has no quantifier: it is not optional.
\<close>

definition is_digit :: "char \<Rightarrow> bool" where
  "is_digit ch = (ch \<in> set ''0123456789'')"

definition take_digits :: "string \<Rightarrow> (string \<times> string) option" where
  "take_digits s =
     (if takeWhile is_digit s = [] then None
      else Some (takeWhile is_digit s, dropWhile is_digit s))"

definition expect_colon :: "string \<Rightarrow> string option" where
  "expect_colon s = (case s of [] \<Rightarrow> None | ch # r \<Rightarrow> if ch = CHR '':'' then Some r else None)"

definition at_end :: "string \<Rightarrow> bool" where
  "at_end s = (s = [] \<or> s = [CHR 0x0A])"

text \<open>The part \<open>:(\d+):(\d+)(?::\d+)$\<close>, giving groups 2 and 3.\<close>

definition match_tail :: "string \<Rightarrow> (string \<times> string) option" where
  "match_tail s =
     Option.bind (expect_colon s) (\<lambda>s1.
     Option.bind (take_digits s1) (\<lambda>(line, s2).
     Option.bind (expect_colon s2) (\<lambda>s3.
     Option.bind (take_digits s3) (\<lambda>(col, s4).
     Option.bind (expect_colon s4) (\<lambda>s5.
     Option.bind (take_digits s5) (\<lambda>(d, s6).
     if at_end s6 then Some (line, col) else None))))))"

text \<open>The lazy group \<open>(.*?)\<close> followed by the rest; \<open>acc\<close> is the path so far, reversed.\<close>

fun lazy_group :: "string \<Rightarrow> string \<Rightarrow> (string \<times> string \<times> string) option" where
  "lazy_group acc [] =
     (case match_tail [] of Some (line, col) \<Rightarrow> Some (rev acc, line, col) | None \<Rightarrow> None)"
| "lazy_group acc (ch # r) =
     (case match_tail (ch # r) of
        Some (line, col) \<Rightarrow> Some (rev acc, line, col)
      | None \<Rightarrow> if ch = CHR 0x0A then None else lazy_group (ch # acc) r)"

text \<open>The match object, as its groups 1, 2 and 3, or \<open>None\<close>.\<close>

definition textedit_match :: "string \<Rightarrow> (string \<times> string \<times> string) option" where
  "textedit_match u =
     (if take 11 u = ''textedit://'' then lazy_group [] (drop 11 u) else None)"

text \<open>\<open>int()\<close> of a string of decimal digits.\<close>

definition digit_value :: "char \<Rightarrow> int" where
  "digit_value ch = int (of_char ch) - 48"

definition int_of_digits :: "string \<Rightarrow> int" where
  "int_of_digits s = foldl (\<lambda>n ch. 10 * n + digit_value ch) 0 s"

text \<open>
  \<open>readurl\<close>: filename, line and column of a match. \<open>QUrl.fromPercentEncoding\<close> is Qt's;
  it is the parameter \<open>decode\<close>.
\<close>

definition readurl :: "(string \<Rightarrow> string) \<Rightarrow> string \<times> string \<times> string \<Rightarrow> string \<times> int \<times> int" where
  "readurl decode m =
     (case m of (g1, g2, g3) \<Rightarrow> (decode g1, int_of_digits g2, int_of_digits g3))"

subsection \<open>\<open>Links.__init__\<close>: the scan of the pages\<close>

text \<open>
  A link of a page is a \<open>Poppler.LinkBrowse\<close> with its \<open>url()\<close>, or a link of another
  class; both have a \<open>linkArea()\<close>. A Poppler document is the list of its pages, each the
  list of its links. \<open>self._links\<close> maps a filename to a dictionary from (line, column)
  to the list of destinations (page number, link area).
\<close>

datatype 'a link = LinkBrowse string 'a | OtherLink 'a

type_synonym 'a destinations = "(nat \<times> 'a) list"

type_synonym 'a linkdict = "int \<times> int \<rightharpoonup> 'a destinations"

text \<open>
  The body of the loop over the links of page \<open>num\<close>, with the two \<open>setdefault\<close> calls
  and the \<open>append\<close>. Nothing in it raises: \<open>int()\<close> only sees digits.
\<close>

definition add_link :: "(string \<Rightarrow> string) \<Rightarrow> nat \<Rightarrow> 'a link
    \<Rightarrow> (string \<rightharpoonup> 'a linkdict) \<Rightarrow> (string \<rightharpoonup> 'a linkdict)" where
  "add_link decode num lnk links =
     (case lnk of
        OtherLink area \<Rightarrow> links
      | LinkBrowse u area \<Rightarrow>
          (case textedit_match u of
             None \<Rightarrow> links
           | Some m \<Rightarrow>
               (case readurl decode m of (filename, line, col) \<Rightarrow>
                  (let l = (case links filename of None \<Rightarrow> Map.empty | Some l \<Rightarrow> l);
                       ds = (case l (line, col) of None \<Rightarrow> [] | Some ds \<Rightarrow> ds)
                   in links(filename \<mapsto> l((line, col) \<mapsto> ds @ [(num, area)]))))))"

definition scan_page :: "(string \<Rightarrow> string) \<Rightarrow> nat \<times> 'a link list
    \<Rightarrow> (string \<rightharpoonup> 'a linkdict) \<Rightarrow> (string \<rightharpoonup> 'a linkdict)" where
  "scan_page decode np links = fold (add_link decode (fst np)) (snd np) links"

definition scan_pages :: "(string \<Rightarrow> string) \<Rightarrow> 'a link list list \<Rightarrow> (string \<rightharpoonup> 'a linkdict)" where
  "scan_pages decode document = fold (scan_page decode) (enumerate 0 document) Map.empty"

subsection \<open>\<open>BoundLinks\<close>: construction and exact lookup\<close>

datatype py_error = KeyError | AttributeError

record 'a boundlinks =
  bl_document :: document
  bl_cursor_dict :: "int \<times> int \<rightharpoonup> int"
  bl_cursors :: "int list"
  bl_destinations :: "'a destinations list"

text \<open>
  \<open>sorted(links.items())\<close>: the items of the dictionary in ascending order of their
  keys, which are compared as Python compares tuples, first by line, then by column.
\<close>

definition sorted_items :: "(int \<times> int \<rightharpoonup> 'v) \<Rightarrow> ((int \<times> int) \<times> 'v) list" where
  "sorted_items links = map (\<lambda>k. (k, the (links k))) (sorted_list_of_set (dom links))"

text \<open>
  The body of the loop of \<open>BoundLinks.__init__\<close>. The new cursor is at the position
  given to \<open>setPosition\<close>, \<open>b.position() + column\<close>.
\<close>

definition bind_step :: "document \<Rightarrow> (int \<times> int) \<times> 'a destinations \<Rightarrow> 'a boundlinks \<Rightarrow> 'a boundlinks" where
  "bind_step doc item st =
     (case item of ((line, column), dest) \<Rightarrow>
        (case findBlockByNumber doc (line - 1) of
           None \<Rightarrow> st
         | Some b \<Rightarrow>
             (let c = block_position doc b + column
              in st\<lparr>bl_cursor_dict := (bl_cursor_dict st)((line, column) \<mapsto> c),
                    bl_cursors := bl_cursors st @ [c],
                    bl_destinations := bl_destinations st @ [dest]\<rparr>)))"

definition BoundLinks_init :: "document \<Rightarrow> 'a linkdict \<Rightarrow> 'a boundlinks" where
  "BoundLinks_init doc links =
     fold (bind_step doc) (sorted_items links)
       \<lparr>bl_document = doc, bl_cursor_dict = Map.empty, bl_cursors = [], bl_destinations = []\<rparr>"

text \<open>\<open>BoundLinks.cursor\<close>: \<open>self._cursor_dict[(line, column)]\<close> raises \<open>KeyError\<close> on a missing key.\<close>

definition BoundLinks_cursor :: "'a boundlinks \<Rightarrow> int \<Rightarrow> int \<Rightarrow> py_error + int" where
  "BoundLinks_cursor bound line column =
     (case bl_cursor_dict bound (line, column) of None \<Rightarrow> Inl KeyError | Some c \<Rightarrow> Inr c)"

subsection \<open>\<open>Links\<close>: binding documents and resolving a link\<close>

text \<open>
  A text document of the application: its blocks, \<open>d.url().toLocalFile()\<close> and the path
  of its scratch directory, if it has one.
\<close>

record app_document =
  doc_blocks :: document
  doc_local_file :: string
  doc_scratch_path :: "string option"

record 'a links_state =
  l_links :: "string \<rightharpoonup> 'a linkdict"
  l_docs :: "string \<rightharpoonup> 'a boundlinks"

text \<open>\<open>Links.bind\<close>: \<open>self._links[filename]\<close> raises \<open>KeyError\<close> for an unknown filename.\<close>

definition Links_bind :: "'a links_state \<Rightarrow> string \<Rightarrow> app_document \<Rightarrow> py_error + 'a links_state" where
  "Links_bind st filename d =
     (case l_links st filename of
        None \<Rightarrow> Inl KeyError
      | Some l \<Rightarrow> Inr (st\<lparr>l_docs := (l_docs st)(filename \<mapsto> BoundLinks_init (doc_blocks d) l)\<rparr>))"

definition slotDocumentLoaded :: "'a links_state \<Rightarrow> app_document \<Rightarrow> 'a links_state" where
  "slotDocumentLoaded st d =
     (let filename = doc_local_file d
      in if filename \<in> dom (l_links st)
         then (case Links_bind st filename d of Inr st' \<Rightarrow> st' | Inl e \<Rightarrow> st)
         else st)"

text \<open>
  \<open>Links.__init__\<close>: the scan, then every filename of \<open>self._links\<close> is bound to each
  document of \<open>app.documents\<close> that has it as scratch path or local file; a later document
  replaces the binding of an earlier one.
\<close>

definition Links_init :: "(string \<Rightarrow> string) \<Rightarrow> app_document list \<Rightarrow> 'a link list list \<Rightarrow> 'a links_state" where
  "Links_init decode app_documents document =
     (let links = scan_pages decode document
      in \<lparr>l_links = links,
          l_docs = (\<lambda>filename.
            case links filename of
              None \<Rightarrow> None
            | Some l \<Rightarrow>
                (case filter (\<lambda>d. doc_scratch_path d = Some filename \<or> doc_local_file d = filename)
                        app_documents of
                   [] \<Rightarrow> None
                 | d # ds \<Rightarrow> Some (BoundLinks_init (doc_blocks (last (d # ds))) l)))\<rparr>)"

text \<open>
  \<open>Links.cursor(link, load)\<close>. \<open>app.openUrl\<close> belongs to the application: \<open>openUrl\<close>
  gives the document it loads for a filename, if any, for which the application then
  emits \<open>documentLoaded\<close>, received by \<open>slotDocumentLoaded\<close>. The result is the error
  raised, or the returned cursor position, \<open>None\<close> when the method returns nothing;
  with it comes the state afterwards. A link that is not a \<open>LinkBrowse\<close> has no
  \<open>url()\<close>.
\<close>

definition Links_cursor :: "(string \<Rightarrow> string) \<Rightarrow> (string \<Rightarrow> app_document option)
    \<Rightarrow> 'a links_state \<Rightarrow> 'a link \<Rightarrow> bool \<Rightarrow> (py_error + int option) \<times> 'a links_state" where
  "Links_cursor decode openUrl st lnk load =
     (case lnk of
        OtherLink area \<Rightarrow> (Inl AttributeError, st)
      | LinkBrowse u area \<Rightarrow>
          (case textedit_match u of
             None \<Rightarrow> (Inr None, st)
           | Some m \<Rightarrow>
               (case readurl decode m of (filename, line, col) \<Rightarrow>
                  (case l_docs st filename of
                     Some bound \<Rightarrow> (map_sum id Some (BoundLinks_cursor bound line col), st)
                   | None \<Rightarrow>
                       if load then
                         (let st' = (case openUrl filename of
                                       None \<Rightarrow> st | Some d \<Rightarrow> slotDocumentLoaded st d)
                          in case l_docs st' filename of
                               Some bound \<Rightarrow> (map_sum id Some (BoundLinks_cursor bound line col), st')
                             | None \<Rightarrow> (Inr None, st'))
                       else (Inr None, st)))))"

subsection \<open>The selection query in the words of the spec\<close>

text \<open>
  Section 4.4 of the spec, selection case: \<open>endIdx\<close> is the largest index whose anchor
  position is below the end of the selection, \<open>startIdx\<close> the smallest index whose anchor
  position is at or after its start; the result is Match \<open>[startIdx, endIdx + 1)\<close> when
  both exist and \<open>startIdx \<le> endIdx\<close>, and Clear otherwise.
\<close>

definition anchors_before :: "int list \<Rightarrow> int \<Rightarrow> nat set" where
  "anchors_before cursors e = {i. i < length cursors \<and> cursors ! i < e}"

definition anchors_from :: "int list \<Rightarrow> int \<Rightarrow> nat set" where
  "anchors_from cursors s = {i. i < length cursors \<and> s \<le> cursors ! i}"

definition spec_selection :: "int list \<Rightarrow> int \<Rightarrow> int \<Rightarrow> outcome" where
  "spec_selection cursors s e =
     (if anchors_before cursors e = {} then RetFalse
      else
        (let endIdx = Max (anchors_before cursors e) in
         if anchors_from cursors s \<noteq> {} \<and> Min (anchors_from cursors s) \<le> endIdx
         then Slice (int (Min (anchors_from cursors s))) (int endIdx + 1)
         else RetFalse))"

subsection \<open>Delimiter resolution in the words of the spec\<close>

text \<open>
  The recognized closer of section 4.5 of the spec, the condition of lines 229 and 230:
  a \<open>MatchEnd\<close> token whose \<open>matchname\<close> is one of slur, phrasing slur and beam.
\<close>

definition ending_token :: "token \<Rightarrow> bool" where
  "ending_token t =
     (case cls t of
        MatchEnd name \<Rightarrow> name \<in> set [''slur'', ''phrasingslur'', ''beam'']
      | _ \<Rightarrow> False)"

text \<open>The pair name of a token, empty for a token that is neither opener nor closer.\<close>

definition pair_name :: "token \<Rightarrow> string" where
  "pair_name t = (case cls t of MatchStart name \<Rightarrow> name | MatchEnd name \<Rightarrow> name | OtherToken \<Rightarrow> [])"

text \<open>
  The first scan passes over a token when it starts after the lower bound and is not a
  recognized closer starting at or before the caret column. The token that ends the scan
  is the first one that is not passed over: a recognized closer at or before the caret,
  or a token at or before the lower bound.
\<close>

definition passed_over :: "int \<Rightarrow> int \<Rightarrow> nat \<times> token \<Rightarrow> bool" where
  "passed_over prevcol col bt =
     (prevcol < pos (snd bt) \<and> \<not> (pos (snd bt) \<le> col \<and> ending_token (snd bt)))"

text \<open>
  The nesting counter of the second scan after the tokens \<open>ts\<close>: the number of closers
  of the pair name among them minus the number of its openers, added to the initial
  value. The matching opener is the first opener of the pair name at which the counter,
  started at \<open>nest\<close>, is 0; there is none if the counter never gets to 0 at an opener
  before the tokens run out.
\<close>

definition nesting :: "string \<Rightarrow> (nat \<times> token) list \<Rightarrow> int" where
  "nesting name ts =
     int (length (filter (\<lambda>bt. cls (snd bt) = MatchEnd name) ts))
       - int (length (filter (\<lambda>bt. cls (snd bt) = MatchStart name) ts))"

definition matching_opener :: "string \<Rightarrow> int \<Rightarrow> (nat \<times> token) list \<Rightarrow> (nat \<times> token) option" where
  "matching_opener name nest ts =
     (case filter (\<lambda>i. cls (snd (ts ! i)) = MatchStart name
                        \<and> nest + nesting name (take (Suc i) ts) = 0) [0..<length ts] of
        [] \<Rightarrow> None
      | i # _ \<Rightarrow> Some (ts ! i))"

subsection \<open>Binding in the words of the spec\<close>

text \<open>
  Section 4.2 of the spec: the line of a key exists in the buffer when its 1-based
  number is at most the buffer's line count; the anchor of a key is at the start offset
  of its line plus its column.
\<close>

definition line_in_buffer :: "document \<Rightarrow> int \<Rightarrow> bool" where
  "line_in_buffer doc line = (1 \<le> line \<and> line \<le> int (length doc))"

definition anchor_position :: "document \<Rightarrow> int \<times> int \<Rightarrow> int" where
  "anchor_position doc k = block_position doc (nat (fst k - 1)) + snd k"

definition bound_keys :: "document \<Rightarrow> (int \<times> int \<rightharpoonup> 'v) \<Rightarrow> (int \<times> int) list" where
  "bound_keys doc links =
     filter (\<lambda>k. line_in_buffer doc (fst k)) (sorted_list_of_set (dom links))"

subsection \<open>The link table in the words of the spec\<close>

text \<open>
  Section 3 and 4.1 of the spec: the raw link records of a document, each a key (file
  path, line, column) with its destination (page index, region), in the order of the
  scan: pages in index order, the links of a page in their order. Only the links whose
  URL is well formed give a record. The lookup by (file, line, column) gives the
  destination list of the key, empty when the table has no such key.
\<close>

definition record_of :: "(string \<Rightarrow> string) \<Rightarrow> nat \<Rightarrow> 'a link
    \<Rightarrow> ((string \<times> int \<times> int) \<times> (nat \<times> 'a)) option" where
  "record_of decode num lnk =
     (case lnk of
        OtherLink area \<Rightarrow> None
      | LinkBrowse u area \<Rightarrow>
          map_option (\<lambda>m. (readurl decode m, (num, area))) (textedit_match u))"


definition table_lookup :: "(string \<rightharpoonup> 'a linkdict) \<Rightarrow> string \<times> int \<times> int \<Rightarrow> 'a destinations" where
  "table_lookup links k =
     (case links (fst k) of
        None \<Rightarrow> []
      | Some l \<Rightarrow> (case l (snd k) of None \<Rightarrow> [] | Some ds \<Rightarrow> ds))"


subsection \<open>Well-formed URLs\<close>

text \<open>
  The URLs that the code accepts, written in the manner of section 6 of the spec:
  \<open>textedit://\<close>, a path without newline, and three groups of a colon and decimal
  digits: the line, the column and one more number. A single newline may follow.
\<close>

definition digits :: "string \<Rightarrow> bool" where
  "digits s = (s \<noteq> [] \<and> list_all is_digit s)"

definition textedit_url :: "string \<Rightarrow> string \<Rightarrow> string \<Rightarrow> string \<Rightarrow> bool" where
  "textedit_url u path line col =
     (\<exists>d nl. u = ''textedit://'' @ path @ '':'' @ line @ '':'' @ col @ '':'' @ d @ nl
        \<and> CHR 0x0A \<notin> set path \<and> digits line \<and> digits col \<and> digits d \<and> at_end nl)"

section \<open>Properties\<close>

subsection \<open>The binary search on sorted cursors\<close>

declare findlink_loop.simps [simp del]

lemma findlink_loop_sorted:
  assumes "sorted cursors" "lo \<le> hi" "hi \<le> length cursors"
    and "\<forall>i<lo. cursors ! i \<le> p"
    and "\<forall>i. hi \<le> i \<and> i < length cursors \<longrightarrow> p < cursors ! i"
  shows "lo \<le> findlink_loop cursors p lo hi \<and> findlink_loop cursors p lo hi \<le> hi
       \<and> (\<forall>i<findlink_loop cursors p lo hi. cursors ! i \<le> p)
       \<and> (\<forall>i. findlink_loop cursors p lo hi \<le> i \<and> i < length cursors \<longrightarrow> p < cursors ! i)"
  using assms
proof (induction cursors p lo hi rule: findlink_loop.induct)
  case (1 cursors p lo hi)
  show ?case
  proof (cases "lo < hi")
    case False
    then have "findlink_loop cursors p lo hi = lo"
      by (subst findlink_loop.simps) simp
    moreover have "lo = hi" using False "1.prems"(2) by simp
    ultimately show ?thesis using "1.prems" by simp
  next
    case True
    define mid where "mid = (lo + hi) div 2"
    have m: "lo \<le> mid" "mid < hi" using True by (auto simp: mid_def)
    show ?thesis
    proof (cases "p < cursors ! mid")
      case lt: True
      have eq: "findlink_loop cursors p lo hi = findlink_loop cursors p lo mid"
        using True lt by (simp add: findlink_loop.simps[of cursors p lo hi] mid_def)
      have up: "\<forall>i. mid \<le> i \<and> i < length cursors \<longrightarrow> p < cursors ! i"
      proof (intro allI impI)
        fix i assume i: "mid \<le> i \<and> i < length cursors"
        then have "cursors ! mid \<le> cursors ! i"
          using "1.prems"(1) by (simp add: sorted_nth_mono)
        with lt show "p < cursors ! i" by simp
      qed
      have "lo \<le> findlink_loop cursors p lo mid \<and> findlink_loop cursors p lo mid \<le> mid
       \<and> (\<forall>i<findlink_loop cursors p lo mid. cursors ! i \<le> p)
       \<and> (\<forall>i. findlink_loop cursors p lo mid \<le> i \<and> i < length cursors \<longrightarrow> p < cursors ! i)"
        using "1.IH"(1)[OF True mid_def lt "1.prems"(1) m(1) _ "1.prems"(4) up] m "1.prems"(3)
        by simp
      then show ?thesis using m by (simp add: eq)
    next
      case ge: False
      have eq: "findlink_loop cursors p lo hi = findlink_loop cursors p (mid + 1) hi"
        using True ge by (simp add: findlink_loop.simps[of cursors p lo hi] mid_def)
      have low: "\<forall>i<mid + 1. cursors ! i \<le> p"
      proof (intro allI impI)
        fix i assume i: "i < mid + 1"
        then have "cursors ! i \<le> cursors ! mid"
          using "1.prems"(1,3) m by (simp add: sorted_nth_mono)
        with ge show "cursors ! i \<le> p" by simp
      qed
      have "mid + 1 \<le> findlink_loop cursors p (mid + 1) hi \<and> findlink_loop cursors p (mid + 1) hi \<le> hi
       \<and> (\<forall>i<findlink_loop cursors p (mid + 1) hi. cursors ! i \<le> p)
       \<and> (\<forall>i. findlink_loop cursors p (mid + 1) hi \<le> i \<and> i < length cursors \<longrightarrow> p < cursors ! i)"
        using "1.IH"(2)[OF True mid_def ge "1.prems"(1) _ "1.prems"(3) low "1.prems"(5)] m
        by simp
      then show ?thesis using m by (simp add: eq)
    qed
  qed
qed

subsection \<open>Selection queries\<close>

lemma findlink_range:
  assumes "sorted cursors"
  shows "- 1 \<le> findlink cursors p \<and> findlink cursors p < int (length cursors)"
  using findlink_loop_sorted[OF assms, of 0 "length cursors" p]
  by (simp add: findlink_def)

lemma findlink_iff:
  assumes "sorted cursors" "i < length cursors"
  shows "(int i \<le> findlink cursors p) = (cursors ! i \<le> p)"
proof -
  define r where "r = findlink_loop cursors p 0 (length cursors)"
  have a: "\<forall>i<r. cursors ! i \<le> p"
    and b: "\<forall>i. r \<le> i \<and> i < length cursors \<longrightarrow> p < cursors ! i"
    using findlink_loop_sorted[OF assms(1), of 0 "length cursors" p]
    by (simp_all add: r_def)
  have f: "findlink cursors p = int r - 1" by (simp add: findlink_def r_def)
  show ?thesis
  proof (cases "i < r")
    case True
    with a f show ?thesis by simp
  next
    case False
    with b assms(2) have "p < cursors ! i" by simp
    with False f show ?thesis by simp
  qed
qed

lemma anchors_before_findlink:
  assumes "sorted cursors"
  shows "anchors_before cursors e = {i. int i \<le> findlink cursors (e - 1)}"
proof -
  have "i < length cursors" if "int i \<le> findlink cursors (e - 1)" for i
    using that findlink_range[OF assms, of "e - 1"] by simp
  then show ?thesis
    using findlink_iff[OF assms, of _ "e - 1"]
    by (auto simp: anchors_before_def)
qed

lemma Max_upto_int: "0 \<le> f \<Longrightarrow> Max {i. int i \<le> f} = nat f"
  by (rule Max_eqI) (auto intro: finite_subset[of _ "{..nat f}"])

lemma selection_start_iff:
  fixes s :: int
  assumes "sorted_wrt (<) cursors" "i < length cursors"
  defines "start0 \<equiv> findlink cursors s"
  defines "start \<equiv> (if start0 < 0 \<or> cursors ! nat start0 < s then start0 + 1 else start0)"
  shows "(s \<le> cursors ! i) = (start \<le> int i)"
proof -
  have srt: "sorted cursors" using assms(1) by (rule strict_sorted_imp_sorted)
  note rng = findlink_range[OF srt, of s]
  note iff = findlink_iff[OF srt, of _ s]
  show ?thesis
  proof (cases "start0 < 0")
    case True
    then have "\<not> int i \<le> findlink cursors s" by (simp add: start0_def)
    then have "s < cursors ! i" using iff[OF assms(2)] by simp
    moreover have "start \<le> int i" using True rng by (simp add: start_def start0_def)
    ultimately show ?thesis by simp
  next
    case False
    define f where "f = nat start0"
    have f: "start0 = int f" "f < length cursors" using False rng by (simp_all add: f_def start0_def)
    have fs: "cursors ! f \<le> s" using iff[OF f(2)] f(1) by (simp add: start0_def)
    show ?thesis
    proof (cases "cursors ! f < s")
      case True
      then have st: "start = int f + 1" using f by (simp add: start_def)
      show ?thesis
      proof (cases "i \<le> f")
        case True
        then have "cursors ! i \<le> cursors ! f" using srt f(2) by (simp add: sorted_nth_mono)
        with \<open>cursors ! f < s\<close> True st show ?thesis by simp
      next
        case False
        then have "\<not> int i \<le> findlink cursors s" using f(1) by (simp add: start0_def)
        then have "s < cursors ! i" using iff[OF assms(2)] by simp
        with False st show ?thesis by simp
      qed
    next
      case False
      then have st: "start = int f" using f by (simp add: start_def)
      from False fs have eq: "cursors ! f = s" by simp
      show ?thesis
      proof (cases "i < f")
        case True
        then have "cursors ! i < cursors ! f"
          using assms(1) f(2) by (simp add: sorted_wrt_nth_less)
        with eq True st show ?thesis by simp
      next
        case False
        then have "cursors ! f \<le> cursors ! i" using srt assms(2) by (simp add: sorted_nth_mono)
        with eq False st show ?thesis by simp
      qed
    qed
  qed
qed

lemma anchors_from_start:
  fixes s :: int
  assumes "sorted_wrt (<) cursors"
  defines "start0 \<equiv> findlink cursors s"
  defines "start \<equiv> (if start0 < 0 \<or> cursors ! nat start0 < s then start0 + 1 else start0)"
  shows "anchors_from cursors s = {i. i < length cursors \<and> start \<le> int i}"
  using selection_start_iff[OF assms(1), of _ s]
  by (auto simp: anchors_from_def start_def start0_def)

lemma Min_from_int:
  assumes "0 \<le> f" "nat f < n"
  shows "Min {i. i < n \<and> f \<le> int i} = nat f"
  using assms by (intro Min_eqI) auto

lemma indices_selection_eq:
  assumes "sorted_wrt (<) cursors" and "selectionStart c < selectionEnd c"
  shows "indices doc cursors c = spec_selection cursors (selectionStart c) (selectionEnd c)"
proof -
  have srt: "sorted cursors" using assms(1) by (rule strict_sorted_imp_sorted)
  have sel: "hasSelection c"
    using assms(2) by (auto simp: hasSelection_def selectionStart_def selectionEnd_def)
  define e where "e = findlink cursors (selectionEnd c - 1)"
  define start0 where "start0 = findlink cursors (selectionStart c)"
  define start where
    "start = (if start0 < 0 \<or> cursors ! nat start0 < selectionStart c then start0 + 1 else start0)"
  have code: "indices doc cursors c =
      (if e \<ge> 0 then (if start \<le> e then Slice start (e + 1) else RetFalse) else RetFalse)"
    using sel by (simp add: indices_def indices_selection_def Let_def e_def start_def start0_def)
  have before: "anchors_before cursors (selectionEnd c) = {i. int i \<le> e}"
    using anchors_before_findlink[OF srt] by (simp add: e_def)
  have "from": "anchors_from cursors (selectionStart c) = {i. i < length cursors \<and> start \<le> int i}"
    using anchors_from_start[OF assms(1)] by (simp add: start_def start0_def)
  have e_rng: "- 1 \<le> e" "e < int (length cursors)"
    using findlink_range[OF srt] by (simp_all add: e_def)
  have start_nonneg: "0 \<le> start"
    using findlink_range[OF srt, of "selectionStart c"] by (simp add: start_def start0_def)
  show ?thesis
  proof (cases "e \<ge> 0")
    case False
    then have "anchors_before cursors (selectionEnd c) = {}" by (auto simp: before)
    with False code show ?thesis by (simp add: spec_selection_def)
  next
    case e0: True
    then have ne: "anchors_before cursors (selectionEnd c) \<noteq> {}"
      by (auto simp: before intro: exI[of _ 0])
    have mx: "Max (anchors_before cursors (selectionEnd c)) = nat e"
      using e0 by (simp add: before Max_upto_int)
    show ?thesis
    proof (cases "start \<le> e")
      case le: True
      then have lt: "nat start < length cursors" using e_rng start_nonneg by simp
      then have ne2: "anchors_from cursors (selectionStart c) \<noteq> {}"
        using start_nonneg by (auto simp: "from" intro: exI[of _ "nat start"])
      have mn: "Min (anchors_from cursors (selectionStart c)) = nat start"
        using Min_from_int[OF start_nonneg lt] by (simp add: "from")
      show ?thesis
        using e0 le ne ne2 mx mn start_nonneg code by (simp add: spec_selection_def Let_def)
    next
      case gt: False
      have "spec_selection cursors (selectionStart c) (selectionEnd c) = RetFalse"
      proof (cases "nat start < length cursors")
        case True
        have mn: "Min (anchors_from cursors (selectionStart c)) = nat start"
          using Min_from_int[OF start_nonneg True] by (simp add: "from")
        have "\<not> nat start \<le> nat e" using gt e0 by linarith
        then show ?thesis using ne mx mn by (simp add: spec_selection_def Let_def)
      next
        case False
        then have "anchors_from cursors (selectionStart c) = {}"
          using start_nonneg by (auto simp: "from")
        then show ?thesis using ne by (simp add: spec_selection_def)
      qed
      with e0 gt code show ?thesis by simp
    qed
  qed
qed

lemma spec_selection_before_first:
  assumes "\<forall>i<length cursors. e \<le> cursors ! i"
  shows "spec_selection cursors s e = RetFalse"
proof -
  have "anchors_before cursors e = {}" using assms by (auto simp: anchors_before_def)
  then show ?thesis by (simp add: spec_selection_def)
qed

lemma spec_selection_after_last:
  assumes "\<forall>i<length cursors. cursors ! i < s"
  shows "spec_selection cursors s e = RetFalse"
proof -
  have "anchors_from cursors s = {}" using assms by (auto simp: anchors_from_def)
  then show ?thesis by (simp add: spec_selection_def)
qed

text \<open>
  Claim C4, amended. For a binding whose cursors are strictly increasing in position
  (which \<open>BoundLinks.__init__\<close> gives when the column of every key lies within its
  line), a query with a selection, \<open>start < end\<close>, returns what the spec's
  selection case describes: \<open>False\<close> (Clear) when no anchor lies before the end;
  otherwise the slice from the smallest index at or after the start
  to the largest index before the end, when the former is not above the latter, and
  \<open>False\<close> when it is. A selection that ends at or before every anchor, or starts after
  every anchor, gives \<open>False\<close>.
\<close>

theorem indices_selection_spec:
  assumes "sorted_wrt (<) cursors" and "selectionStart c < selectionEnd c"
  shows "indices doc cursors c = spec_selection cursors (selectionStart c) (selectionEnd c)
    \<and> ((\<forall>i<length cursors. selectionEnd c \<le> cursors ! i) \<longrightarrow> indices doc cursors c = RetFalse)
    \<and> ((\<forall>i<length cursors. cursors ! i < selectionStart c) \<longrightarrow> indices doc cursors c = RetFalse)"
  using indices_selection_eq[OF assms, of doc]
    spec_selection_before_first[of cursors "selectionEnd c" "selectionStart c"]
    spec_selection_after_last[of cursors "selectionStart c" "selectionEnd c"]
  by simp

text \<open>
  The theorem at work: a selection from 10 to 26 over anchors at 0, 5, ..., 30 spans the
  indices 2 to 5; selections before the first and after the last anchor are cleared.
\<close>

theorem indices_selection_spec_witness:
  "sorted_wrt (<) [0, 5, 10, 15, 20, 25, 30 :: int]
   \<and> selectionStart \<lparr>anchor = 10, position = 26\<rparr> < selectionEnd \<lparr>anchor = 10, position = 26\<rparr>
   \<and> spec_selection [0, 5, 10, 15, 20, 25, 30] 10 26 = Slice 2 6
   \<and> spec_selection [10, 20] 3 8 = RetFalse
   \<and> spec_selection [10, 20] 25 30 = RetFalse"
  using indices_selection_spec[of "[0, 5, 10, 15, 20, 25, 30]" "\<lparr>anchor = 10, position = 26\<rparr>" "[]"]
    indices_selection_spec[of "[10, 20]" "\<lparr>anchor = 3, position = 8\<rparr>" "[]"]
    indices_selection_spec[of "[10, 20]" "\<lparr>anchor = 30, position = 25\<rparr>" "[]"]
  by (simp add: indices_def indices_selection_def hasSelection_def selectionStart_def
      selectionEnd_def findlink_def findlink_loop.simps less_Suc_eq all_conj_distrib)

subsection \<open>Point queries\<close>

lemma findlink_exact:
  assumes "sorted_wrt (<) cursors" "i < length cursors" "cursors ! i = p"
  shows "findlink cursors p = int i"
proof -
  have srt: "sorted cursors" using assms(1) by (rule strict_sorted_imp_sorted)
  have le: "int i \<le> findlink cursors p"
    using findlink_iff[OF srt assms(2), of p] assms(3) by simp
  define j where "j = nat (findlink cursors p)"
  have j: "findlink cursors p = int j" "j < length cursors"
    using le findlink_range[OF srt, of p] by (simp_all add: j_def)
  have "cursors ! j \<le> p" using findlink_iff[OF srt j(2), of p] j(1) by simp
  moreover have "cursors ! i < cursors ! j" if "i < j"
    using that assms(1) j(2) by (simp add: sorted_wrt_nth_less)
  ultimately have "\<not> i < j" using assms(3) by auto
  with le j(1) show ?thesis by simp
qed

lemma findlink_before_first:
  assumes "sorted cursors" "cursors \<noteq> []" "p < cursors ! 0"
  shows "findlink cursors p = - 1"
proof -
  have "\<not> int 0 \<le> findlink cursors p"
    using findlink_iff[OF assms(1), of 0 p] assms(2,3) by simp
  then show ?thesis using findlink_range[OF assms(1), of p] by simp
qed

text \<open>
  Claim C5, amended. For a binding whose cursors are strictly increasing in position
  (which \<open>BoundLinks.__init__\<close> gives when the column of every key lies within its
  line), a query without selection returns \<open>None\<close> (Indeterminate) when the caret
  is before the first cursor, and the slice \<open>[idx, idx + 1)\<close> when the cursor with
  index \<open>idx\<close> is exactly at the caret.
\<close>

theorem indices_point_before_or_exact:
  assumes "sorted_wrt (<) cursors" and "\<not> hasSelection c"
  shows "(cursors \<noteq> [] \<and> position c < cursors ! 0 \<longrightarrow> indices doc cursors c = RetNone)
    \<and> (idx < length cursors \<and> cursors ! idx = position c
           \<longrightarrow> indices doc cursors c = Slice (int idx) (int idx + 1))"
proof (intro conjI impI)
  assume "cursors \<noteq> [] \<and> position c < cursors ! 0"
  then have "findlink cursors (position c) = - 1"
    using findlink_before_first[OF strict_sorted_imp_sorted[OF assms(1)]] by simp
  then show "indices doc cursors c = RetNone"
    using assms(2) by (simp add: indices_def indices_point_def)
next
  assume "idx < length cursors \<and> cursors ! idx = position c"
  then have "findlink cursors (position c) = int idx" "cursors ! idx = position c"
    using findlink_exact[OF assms(1)] by simp_all
  then show "indices doc cursors c = Slice (int idx) (int idx + 1)"
    using assms(2) by (simp add: indices_def indices_point_def Let_def)
qed

text \<open>
  The theorem at work on the cursors 24 and 40: a caret at 10 is before the first one,
  a caret at 40 is on the second.
\<close>

theorem indices_point_before_or_exact_witness:
  "sorted_wrt (<) [24, 40 :: int]
   \<and> \<not> hasSelection \<lparr>anchor = 10, position = 10\<rparr>
   \<and> \<not> hasSelection \<lparr>anchor = 40, position = 40\<rparr>
   \<and> indices [] [24, 40] \<lparr>anchor = 10, position = 10\<rparr> = RetNone
   \<and> indices [] [24, 40] \<lparr>anchor = 40, position = 40\<rparr> = Slice 1 2"
  using indices_point_before_or_exact[of "[24, 40]" "\<lparr>anchor = 10, position = 10\<rparr>" "[]" 0]
    indices_point_before_or_exact[of "[24, 40]" "\<lparr>anchor = 40, position = 40\<rparr>" "[]" 1]
  by (simp add: hasSelection_def)

subsection \<open>Construction of a binding\<close>

lemma findBlockByNumber_line:
  "findBlockByNumber doc (line - 1) =
     (if line_in_buffer doc line then Some (nat (line - 1)) else None)"
  by (auto simp: findBlockByNumber_def line_in_buffer_def)

lemma bind_step_eq:
  "bind_step doc (k, dest) st =
     (if line_in_buffer doc (fst k)
      then st\<lparr>bl_cursor_dict := (bl_cursor_dict st)(k \<mapsto> anchor_position doc k),
              bl_cursors := bl_cursors st @ [anchor_position doc k],
              bl_destinations := bl_destinations st @ [dest]\<rparr>
      else st)"
  by (cases k) (simp add: bind_step_def findBlockByNumber_line anchor_position_def Let_def)

lemma fold_bind_step_cursors:
  "bl_cursors (fold (bind_step doc) items st) =
     bl_cursors st @ map (anchor_position doc)
       (filter (\<lambda>k. line_in_buffer doc (fst k)) (map fst items))"
proof (induction items arbitrary: st)
  case Nil
  show ?case by simp
next
  case (Cons item items)
  obtain k dest where item: "item = (k, dest)" by (cases item)
  show ?case by (simp add: item Cons.IH bind_step_eq)
qed

lemma fold_bind_step_destinations:
  "bl_destinations (fold (bind_step doc) items st) =
     bl_destinations st @ map snd (filter (\<lambda>item. line_in_buffer doc (fst (fst item))) items)"
proof (induction items arbitrary: st)
  case Nil
  show ?case by simp
next
  case (Cons item items)
  obtain k dest where item: "item = (k, dest)" by (cases item)
  show ?case by (simp add: item Cons.IH bind_step_eq)
qed

lemma fold_bind_step_cursor_dict:
  "bl_cursor_dict (fold (bind_step doc) items st) k =
     (if k \<in> fst ` set items \<and> line_in_buffer doc (fst k)
      then Some (anchor_position doc k) else bl_cursor_dict st k)"
proof (induction items arbitrary: st)
  case Nil
  show ?case by simp
next
  case (Cons item items)
  obtain k' dest where item: "item = (k', dest)" by (cases item)
  show ?case by (auto simp: item Cons.IH bind_step_eq)
qed

lemma BoundLinks_init_cursors:
  "bl_cursors (BoundLinks_init doc links) = map (anchor_position doc) (bound_keys doc links)"
  by (simp add: BoundLinks_init_def fold_bind_step_cursors sorted_items_def bound_keys_def
      comp_def)

lemma BoundLinks_init_destinations:
  "bl_destinations (BoundLinks_init doc links) = map (\<lambda>k. the (links k)) (bound_keys doc links)"
  by (simp add: BoundLinks_init_def fold_bind_step_destinations sorted_items_def bound_keys_def
      filter_map comp_def)

lemma BoundLinks_init_cursor_dict:
  assumes "finite (dom links)"
  shows "bl_cursor_dict (BoundLinks_init doc links) k =
     (if k \<in> dom links \<and> line_in_buffer doc (fst k)
      then Some (anchor_position doc k) else None)"
  using assms
  by (simp add: BoundLinks_init_def fold_bind_step_cursor_dict sorted_items_def image_image)

lemma bound_keys_props:
  assumes "finite (dom links)"
  shows "sorted_wrt (<) (bound_keys doc links)"
    and "set (bound_keys doc links) = {k \<in> dom links. line_in_buffer doc (fst k)}"
    and "length (bound_keys doc links) = card {k \<in> dom links. line_in_buffer doc (fst k)}"
proof -
  show s: "sorted_wrt (<) (bound_keys doc links)"
    unfolding bound_keys_def by (intro sorted_wrt_filter) simp
  show e: "set (bound_keys doc links) = {k \<in> dom links. line_in_buffer doc (fst k)}"
    using assms by (auto simp: bound_keys_def)
  have "distinct (bound_keys doc links)"
    using s by (simp add: strict_sorted_iff)
  then have "length (bound_keys doc links) = card (set (bound_keys doc links))"
    by (simp add: distinct_card)
  then show "length (bound_keys doc links) = card {k \<in> dom links. line_in_buffer doc (fst k)}"
    by (simp add: e)
qed

text \<open>
  Claim C6. The construction goes through the keys of the link table in ascending order
  of (line, column). The cursors are the anchor positions, line start plus column, of
  exactly the keys whose line exists in the buffer, in that order, and the destinations
  are those keys' destination lists, in the same order: the two lists are parallel and
  of equal length, the number of keys with a line in the buffer. Keys with a line outside
  the buffer add nothing, and nothing is raised.
\<close>

theorem BoundLinks_init_parallel_arrays:
  assumes "finite (dom links)"
  shows "bl_cursors (BoundLinks_init doc links) = map (anchor_position doc) (bound_keys doc links)
    \<and> bl_destinations (BoundLinks_init doc links) = map (\<lambda>k. the (links k)) (bound_keys doc links)
    \<and> length (bl_cursors (BoundLinks_init doc links))
        = length (bl_destinations (BoundLinks_init doc links))
    \<and> length (bl_cursors (BoundLinks_init doc links))
        = card {k \<in> dom links. line_in_buffer doc (fst k)}
    \<and> sorted_wrt (<) (bound_keys doc links)
    \<and> set (bound_keys doc links) = {k \<in> dom links. line_in_buffer doc (fst k)}"
  using bound_keys_props[OF assms, of doc]
  by (simp add: BoundLinks_init_cursors BoundLinks_init_destinations)

text \<open>
  The theorem at work on a buffer of two lines, \<open>ab\<close> and \<open>cd\<close>, and a link table
  with the keys (2, 1), (1, 0) and (5, 0): two cursors, at 0 and 4, and the two
  destination lists of the keys (1, 0) and (2, 1).
\<close>

theorem BoundLinks_init_parallel_arrays_witness:
  "finite (dom [(2, 1) \<mapsto> [(0 :: nat, ''A'')], (1, 0) \<mapsto> [(1, ''B'')], (5 :: int, 0 :: int) \<mapsto> [(2, ''C'')]])
   \<and> bl_cursors (BoundLinks_init
        [\<lparr>block_text = ''ab'', block_tokens = []\<rparr>, \<lparr>block_text = ''cd'', block_tokens = []\<rparr>]
        [(2, 1) \<mapsto> [(0 :: nat, ''A'')], (1, 0) \<mapsto> [(1, ''B'')], (5, 0) \<mapsto> [(2, ''C'')]]) = [0, 4]
   \<and> bl_destinations (BoundLinks_init
        [\<lparr>block_text = ''ab'', block_tokens = []\<rparr>, \<lparr>block_text = ''cd'', block_tokens = []\<rparr>]
        [(2, 1) \<mapsto> [(0 :: nat, ''A'')], (1, 0) \<mapsto> [(1, ''B'')], (5, 0) \<mapsto> [(2, ''C'')]])
       = [[(1, ''B'')], [(0, ''A'')]]"
  using BoundLinks_init_parallel_arrays[of
      "[(2, 1) \<mapsto> [(0 :: nat, ''A'')], (1, 0) \<mapsto> [(1, ''B'')], (5, 0) \<mapsto> [(2, ''C'')]]"
      "[\<lparr>block_text = ''ab'', block_tokens = []\<rparr>, \<lparr>block_text = ''cd'', block_tokens = []\<rparr>]"]
  by (simp add: bound_keys_def line_in_buffer_def anchor_position_def block_position_def
      block_length_def)

subsection \<open>Exact lookup\<close>

text \<open>
  Claim C8. \<open>cursor(line, column)\<close> on a binding returns the cursor made for that key,
  at the line's start plus the column, when the key is in the link table and its line
  is in the buffer; in every other case, and only then, it fails with \<open>KeyError\<close>:
  for a key that is not in the link table, and for a key of the link table whose line
  was not in the buffer when the binding was made.
\<close>

theorem BoundLinks_cursor_lookup:
  assumes "finite (dom links)"
  shows "BoundLinks_cursor (BoundLinks_init doc links) line column =
     (if (line, column) \<in> dom links \<and> line_in_buffer doc line
      then Inr (anchor_position doc (line, column)) else Inl KeyError)"
  by (simp add: BoundLinks_cursor_def BoundLinks_init_cursor_dict[OF assms])

text \<open>
  The theorem at work on a buffer of ten lines \<open>abc\<close> and the keys (3, 0), (5, 2) and
  (12, 0): the first two are found at 8 and 18; (4, 0), never a key, and (12, 0), beyond
  the buffer, fail.
\<close>

theorem BoundLinks_cursor_lookup_witness:
  "finite (dom [(3, 0) \<mapsto> [(0 :: nat, ''A'')], (5, 2) \<mapsto> [(1, ''B'')], (12 :: int, 0 :: int) \<mapsto> []])
   \<and> BoundLinks_cursor (BoundLinks_init (replicate 10 \<lparr>block_text = ''abc'', block_tokens = []\<rparr>)
        [(3, 0) \<mapsto> [(0 :: nat, ''A'')], (5, 2) \<mapsto> [(1, ''B'')], (12, 0) \<mapsto> []]) 3 0 = Inr 8
   \<and> BoundLinks_cursor (BoundLinks_init (replicate 10 \<lparr>block_text = ''abc'', block_tokens = []\<rparr>)
        [(3, 0) \<mapsto> [(0 :: nat, ''A'')], (5, 2) \<mapsto> [(1, ''B'')], (12, 0) \<mapsto> []]) 5 2 = Inr 18
   \<and> BoundLinks_cursor (BoundLinks_init (replicate 10 \<lparr>block_text = ''abc'', block_tokens = []\<rparr>)
        [(3, 0) \<mapsto> [(0 :: nat, ''A'')], (5, 2) \<mapsto> [(1, ''B'')], (12, 0) \<mapsto> []]) 4 0 = Inl KeyError
   \<and> BoundLinks_cursor (BoundLinks_init (replicate 10 \<lparr>block_text = ''abc'', block_tokens = []\<rparr>)
        [(3, 0) \<mapsto> [(0 :: nat, ''A'')], (5, 2) \<mapsto> [(1, ''B'')], (12, 0) \<mapsto> []]) 12 0 = Inl KeyError"
  using BoundLinks_cursor_lookup[of
      "[(3, 0) \<mapsto> [(0 :: nat, ''A'')], (5, 2) \<mapsto> [(1, ''B'')], (12, 0) \<mapsto> []]"
      "replicate 10 \<lparr>block_text = ''abc'', block_tokens = []\<rparr>"]
  by (simp add: line_in_buffer_def anchor_position_def block_position_def block_length_def
      sum_list_replicate)

subsection \<open>The order of the cursors after construction\<close>

lemma block_position_Suc:
  assumes "n < length doc"
  shows "block_position doc (Suc n) = block_position doc n + block_length (doc ! n)"
  using assms by (simp add: block_position_def take_Suc_conv_app_nth)

lemma block_length_pos: "0 < block_length b"
  by (simp add: block_length_def)

lemma block_position_mono:
  assumes "m \<le> n" "n \<le> length doc"
  shows "block_position doc m \<le> block_position doc n"
  using assms
proof (induction n)
  case 0
  then show ?case by simp
next
  case (Suc n)
  show ?case
  proof (cases "m = Suc n")
    case True
    then show ?thesis by simp
  next
    case False
    with Suc.prems have "m \<le> n" "n < length doc" by simp_all
    with Suc.IH block_position_Suc[of n doc] block_length_pos[of "doc ! n"]
    show ?thesis by simp
  qed
qed

text \<open>
  When the column of every bound key lies within its line, the cursors come out
  strictly increasing: the invariant the queries rely on holds for a link table that
  fits the text.
\<close>

lemma anchor_position_less:
  assumes "k1 < k2" "line_in_buffer doc (fst k1)" "line_in_buffer doc (fst k2)"
    and "snd k1 \<le> int (length (block_text (doc ! nat (fst k1 - 1))))" and "0 \<le> snd k2"
  shows "anchor_position doc k1 < anchor_position doc k2"
proof (cases "fst k1 = fst k2")
  case True
  with assms(1) have "snd k1 < snd k2" by (auto simp: less_prod_def')
  with True show ?thesis by (simp add: anchor_position_def)
next
  case False
  with assms(1) have lt: "fst k1 < fst k2" by (auto simp: less_prod_def')
  define n where "n = nat (fst k1 - 1)"
  have n: "n < length doc" using assms(2) unfolding n_def line_in_buffer_def by linarith
  have "Suc n \<le> nat (fst k2 - 1)"
    using lt assms(2) unfolding n_def line_in_buffer_def by linarith
  moreover have "nat (fst k2 - 1) \<le> length doc"
    using assms(3) unfolding line_in_buffer_def by linarith
  ultimately have "block_position doc (Suc n) \<le> block_position doc (nat (fst k2 - 1))"
    by (rule block_position_mono)
  moreover have "block_position doc n + snd k1 < block_position doc (Suc n)"
  proof -
    have "block_position doc (Suc n)
        = block_position doc n + (int (length (block_text (doc ! n))) + 1)"
      using block_position_Suc[OF n] by (simp add: block_length_def)
    moreover have "snd k1 \<le> int (length (block_text (doc ! n)))"
      using assms(4) by (simp add: n_def)
    ultimately show ?thesis by linarith
  qed
  ultimately show ?thesis using assms(5) by (simp add: anchor_position_def n_def)
qed

lemma BoundLinks_init_sorted:
  assumes "finite (dom links)"
    and "\<forall>k \<in> dom links. line_in_buffer doc (fst k) \<longrightarrow>
           0 \<le> snd k \<and> snd k \<le> int (length (block_text (doc ! nat (fst k - 1))))"
  shows "sorted_wrt (<) (bl_cursors (BoundLinks_init doc links))"
proof -
  have keys: "sorted_wrt (<) (bound_keys doc links)"
    and mem: "set (bound_keys doc links) = {k \<in> dom links. line_in_buffer doc (fst k)}"
    using bound_keys_props[OF assms(1), of doc] by simp_all
  have "sorted_wrt (\<lambda>k1 k2. anchor_position doc k1 < anchor_position doc k2)
          (bound_keys doc links)"
  proof (rule sorted_wrt_mono_rel[OF _ keys])
    fix k1 k2
    assume "k1 \<in> set (bound_keys doc links)" "k2 \<in> set (bound_keys doc links)" "k1 < k2"
    then show "anchor_position doc k1 < anchor_position doc k2"
      using assms(2) by (intro anchor_position_less) (auto simp: mem)
  qed
  then show ?thesis
    by (simp add: BoundLinks_init_cursors sorted_wrt_map)
qed

text \<open>
  Claim C2 at a link table that no longer fits the text. The buffer has the lines
  \<open>ab\<close> and \<open>cd\<close>; the keys (1, 4) and (2, 0) are both on existing lines, but
  column 4 is beyond the end of line 1. The keys are in ascending order, the cursors, at
  positions 4 and 3, are not.
\<close>

theorem BoundLinks_init_unsorted:
  "bl_cursors (BoundLinks_init
      [\<lparr>block_text = ''ab'', block_tokens = []\<rparr>, \<lparr>block_text = ''cd'', block_tokens = []\<rparr>]
      [(1, 4) \<mapsto> [(0 :: nat, ''A'')], (2, 0) \<mapsto> [(0, ''B'')]]) = [4, 3]"
  by (simp add: BoundLinks_init_def sorted_items_def bind_step_def findBlockByNumber_def
      block_position_def block_length_def)

subsection \<open>The link table keeps every destination, in the order of the scan\<close>

lemma add_link_record:
  "add_link decode num lnk links =
     (case record_of decode num lnk of
        None \<Rightarrow> links
      | Some (k, d) \<Rightarrow>
          links(fst k \<mapsto>
            (case links (fst k) of None \<Rightarrow> Map.empty | Some l \<Rightarrow> l)
              (snd k \<mapsto> table_lookup links k @ [d])))"
  by (auto simp: add_link_def record_of_def table_lookup_def Let_def
      split: link.splits option.splits prod.splits)

lemma table_lookup_add_link:
  "table_lookup (add_link decode num lnk links) k =
     table_lookup links k @
       map snd (filter (\<lambda>r. fst r = k) (List.map_filter (record_of decode num) [lnk]))"
  by (cases k)
    (auto simp: add_link_record table_lookup_def
      split: option.splits prod.splits)








subsection \<open>What the regular expression matches\<close>

lemma not_digit_colon [simp]: "\<not> is_digit CHR '':''"
  by (simp add: is_digit_def)

lemma not_digit_newline [simp]: "\<not> is_digit CHR 0x0A"
  by (simp add: is_digit_def)

lemma expect_colon_Some: "expect_colon s = Some r \<longleftrightarrow> s = CHR '':'' # r"
  by (auto simp: expect_colon_def split: list.splits)

lemma takeWhile_digits: "list_all is_digit (takeWhile is_digit s)"
  by (induction s) simp_all

lemma dropWhile_digits: "dropWhile is_digit s = [] \<or> \<not> is_digit (hd (dropWhile is_digit s))"
  by (induction s) simp_all

lemma take_digits_elim:
  assumes "take_digits s = Some (x, r)"
  shows "s = x @ r \<and> digits x \<and> (r = [] \<or> \<not> is_digit (hd r))"
proof -
  from assms have x: "x = takeWhile is_digit s" and r: "r = dropWhile is_digit s"
    and ne: "takeWhile is_digit s \<noteq> []"
    by (simp_all add: take_digits_def split: if_splits)
  have "s = x @ r" unfolding x r by simp
  moreover have "digits x" unfolding digits_def x using ne takeWhile_digits by simp
  moreover have "r = [] \<or> \<not> is_digit (hd r)" unfolding r by (rule dropWhile_digits)
  ultimately show ?thesis by simp
qed

lemma take_digits_intro:
  assumes "digits x" and "r = [] \<or> \<not> is_digit (hd r)"
  shows "take_digits (x @ r) = Some (x, r)"
proof -
  have all: "\<forall>c \<in> set x. is_digit c" and ne: "x \<noteq> []"
    using assms(1) by (simp_all add: digits_def list_all_iff)
  have tw: "takeWhile is_digit (x @ r) = x"
  proof (cases r)
    case Nil
    with all show ?thesis by simp
  next
    case (Cons c r')
    with assms(2) have "\<not> is_digit c" by simp
    with all Cons show ?thesis by (simp add: takeWhile_append2)
  qed
  have dw: "dropWhile is_digit (x @ r) = r"
  proof (cases r)
    case Nil
    with all show ?thesis by simp
  next
    case (Cons c r')
    with assms(2) have "\<not> is_digit c" by simp
    with all Cons show ?thesis by (simp add: dropWhile_append2)
  qed
  show ?thesis unfolding take_digits_def tw dw using ne by simp
qed

lemma take_digits_colon:
  "digits x \<Longrightarrow> take_digits (x @ CHR '':'' # r) = Some (x, CHR '':'' # r)"
  by (rule take_digits_intro) simp_all

lemma take_digits_end:
  "digits x \<Longrightarrow> at_end nl \<Longrightarrow> take_digits (x @ nl) = Some (x, nl)"
  by (rule take_digits_intro) (auto simp: at_end_def)

lemma match_tail_intro:
  assumes "digits line" "digits col" "digits d" "at_end nl"
  shows "match_tail (CHR '':'' # line @ CHR '':'' # col @ CHR '':'' # d @ nl) = Some (line, col)"
proof -
  have 1: "expect_colon (CHR '':'' # line @ CHR '':'' # col @ CHR '':'' # d @ nl)
      = Some (line @ CHR '':'' # col @ CHR '':'' # d @ nl)"
    by (simp add: expect_colon_Some)
  have 2: "take_digits (line @ CHR '':'' # col @ CHR '':'' # d @ nl)
      = Some (line, CHR '':'' # col @ CHR '':'' # d @ nl)"
    using assms(1) by (rule take_digits_colon)
  have 3: "expect_colon (CHR '':'' # col @ CHR '':'' # d @ nl) = Some (col @ CHR '':'' # d @ nl)"
    by (simp add: expect_colon_Some)
  have 4: "take_digits (col @ CHR '':'' # d @ nl) = Some (col, CHR '':'' # d @ nl)"
    using assms(2) by (rule take_digits_colon)
  have 5: "expect_colon (CHR '':'' # d @ nl) = Some (d @ nl)"
    by (simp add: expect_colon_Some)
  have 6: "take_digits (d @ nl) = Some (d, nl)"
    using assms(3,4) by (rule take_digits_end)
  show ?thesis
    unfolding match_tail_def by (simp only: 1 2 3 4 5 6 Option.bind.simps prod.case assms(4) if_True)
qed

lemma match_tail_elim:
  assumes "match_tail s = Some (line, col)"
  shows "\<exists>d nl. s = CHR '':'' # line @ CHR '':'' # col @ CHR '':'' # d @ nl
        \<and> digits line \<and> digits col \<and> digits d \<and> at_end nl"
proof -
  from assms obtain s1 where 1: "expect_colon s = Some s1"
    and r1: "Option.bind (take_digits s1) (\<lambda>(line, s2).
     Option.bind (expect_colon s2) (\<lambda>s3.
     Option.bind (take_digits s3) (\<lambda>(col, s4).
     Option.bind (expect_colon s4) (\<lambda>s5.
     Option.bind (take_digits s5) (\<lambda>(d, s6).
     if at_end s6 then Some (line, col) else None))))) = Some (line, col)"
    unfolding match_tail_def by (cases "expect_colon s") simp_all
  from r1 obtain l' s2 where 2: "take_digits s1 = Some (l', s2)"
    and r2: "Option.bind (expect_colon s2) (\<lambda>s3.
     Option.bind (take_digits s3) (\<lambda>(col, s4).
     Option.bind (expect_colon s4) (\<lambda>s5.
     Option.bind (take_digits s5) (\<lambda>(d, s6).
     if at_end s6 then Some (l', col) else None)))) = Some (line, col)"
    by (cases "take_digits s1") auto
  from r2 obtain s3 where 3: "expect_colon s2 = Some s3"
    and r3: "Option.bind (take_digits s3) (\<lambda>(col, s4).
     Option.bind (expect_colon s4) (\<lambda>s5.
     Option.bind (take_digits s5) (\<lambda>(d, s6).
     if at_end s6 then Some (l', col) else None))) = Some (line, col)"
    by (cases "expect_colon s2") simp_all
  from r3 obtain c' s4 where 4: "take_digits s3 = Some (c', s4)"
    and r4: "Option.bind (expect_colon s4) (\<lambda>s5.
     Option.bind (take_digits s5) (\<lambda>(d, s6).
     if at_end s6 then Some (l', c') else None)) = Some (line, col)"
    by (cases "take_digits s3") auto
  from r4 obtain s5 where 5: "expect_colon s4 = Some s5"
    and r5: "Option.bind (take_digits s5) (\<lambda>(d, s6).
     if at_end s6 then Some (l', c') else None) = Some (line, col)"
    by (cases "expect_colon s4") simp_all
  from r5 obtain d s6 where 6: "take_digits s5 = Some (d, s6)"
    and r6: "(if at_end s6 then Some (l', c') else None) = Some (line, col)"
    by (cases "take_digits s5") auto
  from r6 have e: "at_end s6" "l' = line" "c' = col" by (auto split: if_splits)
  have "s = CHR '':'' # line @ CHR '':'' # col @ CHR '':'' # d @ s6"
    using 1 3 5 take_digits_elim[OF 2] take_digits_elim[OF 4] take_digits_elim[OF 6] e
    by (simp add: expect_colon_Some)
  moreover have "digits line" "digits col" "digits d"
    using take_digits_elim[OF 2] take_digits_elim[OF 4] take_digits_elim[OF 6] e
    by simp_all
  ultimately show ?thesis using e(1) by blast
qed

lemma digits_no_colon: "digits x \<Longrightarrow> count_list x CHR '':'' = 0"
  by (auto simp: digits_def list_all_iff count_list_0_iff)

lemma at_end_no_colon: "at_end nl \<Longrightarrow> count_list nl CHR '':'' = 0"
  by (auto simp: at_end_def)

lemma match_tail_colons:
  assumes "match_tail s = Some lc"
  shows "count_list s CHR '':'' = 3 \<and> (\<exists>r. s = CHR '':'' # r)"
proof -
  obtain line col where lc: "lc = (line, col)" by (cases lc)
  from match_tail_elim[OF assms[unfolded lc]] obtain d nl where
    s: "s = CHR '':'' # line @ CHR '':'' # col @ CHR '':'' # d @ nl"
    and dg: "digits line" "digits col" "digits d" "at_end nl"
    by blast
  show ?thesis
    unfolding s using dg by (simp add: digits_no_colon at_end_no_colon)
qed

lemma match_tail_longer:
  assumes "match_tail t = Some lc" and "q \<noteq> []"
  shows "match_tail (q @ t) = None"
proof (cases "match_tail (q @ t)")
  case None
  then show ?thesis .
next
  case (Some lc')
  from match_tail_colons[OF Some] obtain r where
    c: "count_list (q @ t) CHR '':'' = 3" and h: "q @ t = CHR '':'' # r"
    by blast
  from match_tail_colons[OF assms(1)] have "count_list t CHR '':'' = 3" by simp
  with c have "count_list q CHR '':'' = 0" by simp
  moreover from h assms(2) have "hd q = CHR '':''" by (cases q) simp_all
  ultimately have False using assms(2) by (cases q) (auto split: if_splits)
  then show ?thesis ..
qed

lemma lazy_group_unfold:
  "lazy_group acc s =
     (case match_tail s of
        Some (line, col) \<Rightarrow> Some (rev acc, line, col)
      | None \<Rightarrow>
          (case s of [] \<Rightarrow> None
           | ch # r \<Rightarrow> if ch = CHR 0x0A then None else lazy_group (ch # acc) r))"
  by (cases s) (simp_all split: option.splits)

lemma lazy_group_complete:
  assumes "match_tail t = Some (line, col)" and "CHR 0x0A \<notin> set p"
  shows "lazy_group acc (p @ t) = Some (rev acc @ p, line, col)"
  using assms(2)
proof (induction p arbitrary: acc)
  case Nil
  show ?case using assms(1) by (simp add: lazy_group_unfold[of acc t])
next
  case (Cons x p)
  have "match_tail ((x # p) @ t) = None"
    using assms(1) by (rule match_tail_longer) simp
  moreover have "x \<noteq> CHR 0x0A" "CHR 0x0A \<notin> set p" using Cons.prems by auto
  ultimately show ?case
    using Cons.IH[of "x # acc"] by (simp add: lazy_group_unfold[of acc "x # p @ t"])
qed

lemma lazy_group_sound:
  assumes "lazy_group acc s = Some (path, line, col)"
  shows "\<exists>p t. path = rev acc @ p \<and> s = p @ t \<and> CHR 0x0A \<notin> set p
            \<and> match_tail t = Some (line, col)"
  using assms
proof (induction s arbitrary: acc)
  case Nil
  then show ?case
    by (auto simp: lazy_group_unfold[of acc "[]"] split: option.splits)
next
  case (Cons ch r)
  show ?case
  proof (cases "match_tail (ch # r)")
    case (Some lc)
    with Cons.prems have "path = rev acc" "lc = (line, col)"
      by (auto simp: lazy_group_unfold[of acc "ch # r"])
    with Some show ?thesis by (intro exI[of _ "[]"] exI[of _ "ch # r"]) simp
  next
    case None
    with Cons.prems have ch: "ch \<noteq> CHR 0x0A"
      and rec: "lazy_group (ch # acc) r = Some (path, line, col)"
      by (auto simp: lazy_group_unfold[of acc "ch # r"] split: if_splits)
    from Cons.IH[OF rec] obtain p t where
      "path = rev (ch # acc) @ p" "r = p @ t" "CHR 0x0A \<notin> set p"
      "match_tail t = Some (line, col)"
      by blast
    with ch show ?thesis
      by (intro exI[of _ "ch # p"] exI[of _ t]) simp
  qed
qed

lemma take_prefix_iff: "(take (length pre) u = pre) = (\<exists>r. u = pre @ r)"
proof
  assume "take (length pre) u = pre"
  then have "u = pre @ drop (length pre) u" by (metis append_take_drop_id)
  then show "\<exists>r. u = pre @ r" ..
next
  assume "\<exists>r. u = pre @ r"
  then show "take (length pre) u = pre" by auto
qed

lemma textedit_match_iff:
  "textedit_match u = Some (path, line, col) \<longleftrightarrow> textedit_url u path line col"
proof
  assume m: "textedit_match u = Some (path, line, col)"
  then have pre: "take 11 u = ''textedit://''"
    and lg: "lazy_group [] (drop 11 u) = Some (path, line, col)"
    by (simp_all add: textedit_match_def split: if_splits)
  from pre have u: "u = ''textedit://'' @ drop 11 u"
    by (metis append_take_drop_id)
  from lazy_group_sound[OF lg] obtain t where
    d: "drop 11 u = path @ t" and nl: "CHR 0x0A \<notin> set path"
    and mt: "match_tail t = Some (line, col)"
    by auto
  from match_tail_elim[OF mt] obtain d' nl' where
    t: "t = CHR '':'' # line @ CHR '':'' # col @ CHR '':'' # d' @ nl'"
    and dg: "digits line" "digits col" "digits d'" "at_end nl'"
    by blast
  have "u = ''textedit://'' @ path @ '':'' @ line @ '':'' @ col @ '':'' @ d' @ nl'"
    using u d t by simp
  with nl dg show "textedit_url u path line col"
    unfolding textedit_url_def by blast
next
  assume "textedit_url u path line col"
  then obtain d nl where
    u: "u = ''textedit://'' @ path @ '':'' @ line @ '':'' @ col @ '':'' @ d @ nl"
    and nl: "CHR 0x0A \<notin> set path"
    and dg: "digits line" "digits col" "digits d" "at_end nl"
    unfolding textedit_url_def by blast
  have mt: "match_tail (CHR '':'' # line @ CHR '':'' # col @ CHR '':'' # d @ nl) = Some (line, col)"
    using dg by (rule match_tail_intro)
  have "take 11 u = ''textedit://''" unfolding u by simp
  moreover have "drop 11 u = path @ CHR '':'' # line @ CHR '':'' # col @ CHR '':'' # d @ nl"
    unfolding u by simp
  ultimately show "textedit_match u = Some (path, line, col)"
    using lazy_group_complete[OF mt nl, of "[]"] by (simp add: textedit_match_def)
qed

subsection \<open>Which links are recorded\<close>

text \<open>
  Claim C3, amended. A browse link is recorded, under the decoded path and the numbers
  of its line and column, exactly when its URL has the form
  \<open>textedit://path:line:column:digits\<close>, the last group of digits being required (a
  newline may end the string). For every other URL of a browse link, one that ends
  after the column included, and for every link that is no browse link, the table stays
  as it is. \<open>add_link\<close> has no error among its results: nothing is raised.
\<close>

theorem add_link_recorded:
  "(textedit_match u = Some (path, line, col)) = textedit_url u path line col
   \<and> (textedit_url u path line col \<longrightarrow>
        table_lookup (add_link decode num (LinkBrowse u area) links)
            (decode path, int_of_digits line, int_of_digits col)
          = table_lookup links (decode path, int_of_digits line, int_of_digits col)
              @ [(num, area)])
   \<and> ((\<forall>path line col. \<not> textedit_url u path line col) \<longrightarrow>
        add_link decode num (LinkBrowse u area) links = links)
   \<and> add_link decode num (OtherLink area) links = links"
proof (intro conjI impI)
  show "(textedit_match u = Some (path, line, col)) = textedit_url u path line col"
    by (rule textedit_match_iff)
next
  assume "textedit_url u path line col"
  then have "textedit_match u = Some (path, line, col)" by (simp add: textedit_match_iff)
  then show "table_lookup (add_link decode num (LinkBrowse u area) links)
            (decode path, int_of_digits line, int_of_digits col)
          = table_lookup links (decode path, int_of_digits line, int_of_digits col)
              @ [(num, area)]"
    by (simp add: table_lookup_add_link record_of_def readurl_def)
next
  assume "\<forall>path line col. \<not> textedit_url u path line col"
  then have "textedit_match u = None"
    by (cases "textedit_match u") (auto simp: textedit_match_iff)
  then show "add_link decode num (LinkBrowse u area) links = links"
    by (simp add: add_link_def)
next
  show "add_link decode num (OtherLink area) links = links"
    by (simp add: add_link_def)
qed

text \<open>
  The theorem at work: the link to \<open>textedit:///a.ly:2:4:5\<close> on page 0 is recorded
  under (/a.ly, 2, 4); a link to \<open>http://lilypond.org\<close> is skipped.
\<close>

theorem add_link_recorded_witness:
  "textedit_url ''textedit:///a.ly:2:4:5'' ''/a.ly'' ''2'' ''4''
   \<and> table_lookup (add_link id 0 (LinkBrowse ''textedit:///a.ly:2:4:5'' (7 :: nat)) Map.empty)
        (''/a.ly'', 2, 4) = [(0, 7)]
   \<and> add_link id 0 (LinkBrowse ''http://lilypond.org'' (7 :: nat)) Map.empty = Map.empty"
proof -
  have m: "textedit_match ''textedit:///a.ly:2:4:5'' = Some (''/a.ly'', ''2'', ''4'')"
    by (simp add: textedit_match_def match_tail_def expect_colon_def take_digits_def
        is_digit_def at_end_def)
  have n: "textedit_match ''http://lilypond.org'' = None"
    by (simp add: textedit_match_def)
  have no: "\<not> textedit_url ''http://lilypond.org'' path line col" for path line col
    using add_link_recorded[where u = "''http://lilypond.org''" and path = path
        and line = line and col = col and decode = id and num = 0 and area = "7 :: nat"
        and links = Map.empty] n
    by simp
  have 1: "textedit_url ''textedit:///a.ly:2:4:5'' ''/a.ly'' ''2'' ''4''
   \<and> table_lookup (add_link id 0 (LinkBrowse ''textedit:///a.ly:2:4:5'' (7 :: nat)) Map.empty)
        (''/a.ly'', 2, 4) = [(0, 7)]"
    using add_link_recorded[where u = "''textedit:///a.ly:2:4:5''" and path = "''/a.ly''"
        and line = "''2''" and col = "''4''" and decode = id and num = 0 and area = "7 :: nat"
        and links = Map.empty] m
    by (simp add: table_lookup_def int_of_digits_def digit_value_def)
  have 2: "add_link id 0 (LinkBrowse ''http://lilypond.org'' (7 :: nat)) Map.empty = Map.empty"
    using add_link_recorded[where u = "''http://lilypond.org''" and decode = id and num = 0
        and area = "7 :: nat" and links = Map.empty] no
    by blast
  from 1 2 show ?thesis by simp
qed

text \<open>
  Against claim C3 as stated. The URL \<open>textedit:///a.ly:2:4\<close> is a scheme, \<open>://\<close>,
  a path, a line and a column, and ends there. The claim has it recorded; the regular
  expression does not match it, and the scan of a document whose only link it is leaves
  the table empty.
\<close>

theorem scan_pages_no_tail_counterexample:
  "''textedit:///a.ly:2:4'' = ''textedit'' @ ''://'' @ ''/a.ly'' @ '':'' @ ''2'' @ '':'' @ ''4''
   \<and> textedit_match ''textedit:///a.ly:2:4'' = None
   \<and> scan_pages id [[LinkBrowse ''textedit:///a.ly:2:4'' (7 :: nat)]] = Map.empty"
  by (simp add: scan_pages_def scan_page_def add_link_def textedit_match_def match_tail_def
      expect_colon_def take_digits_def is_digit_def at_end_def)

subsection \<open>Resolving the destination of a link\<close>

text \<open>
  What \<open>Links.cursor\<close> does where it does not raise: \<open>None\<close> for a URL that does not
  match; without a binding for the file, \<open>None\<close> when \<open>load\<close> is false, and one
  request to open the file followed by one more lookup when \<open>load\<close> is true; with a
  binding, the result of the exact lookup.
\<close>

lemma Links_cursor_no_match:
  assumes "textedit_match u = None"
  shows "Links_cursor decode openUrl st (LinkBrowse u area) load = (Inr None, st)"
  using assms by (simp add: Links_cursor_def)

lemma Links_cursor_bound:
  assumes "textedit_match u = Some (path, line, col)"
    and "l_docs st (decode path) = Some bound"
  shows "Links_cursor decode openUrl st (LinkBrowse u area) load =
     (map_sum id Some (BoundLinks_cursor bound (int_of_digits line) (int_of_digits col)), st)"
  using assms by (simp add: Links_cursor_def readurl_def)

lemma Links_cursor_unbound_no_load:
  assumes "textedit_match u = Some (path, line, col)"
    and "l_docs st (decode path) = None"
  shows "Links_cursor decode openUrl st (LinkBrowse u area) False = (Inr None, st)"
  using assms by (simp add: Links_cursor_def readurl_def)

lemma Links_cursor_unbound_load:
  assumes "textedit_match u = Some (path, line, col)"
    and "l_docs st (decode path) = None"
  shows "Links_cursor decode openUrl st (LinkBrowse u area) True =
     (let st' = (case openUrl (decode path) of None \<Rightarrow> st | Some d \<Rightarrow> slotDocumentLoaded st d)
      in (case l_docs st' (decode path) of
            None \<Rightarrow> Inr None
          | Some bound \<Rightarrow>
              map_sum id Some (BoundLinks_cursor bound (int_of_digits line) (int_of_digits col)),
          st'))"
  using assms by (simp add: Links_cursor_def readurl_def Let_def split: option.splits)

text \<open>
  Claim C9 at a link whose line is beyond the end of the text. The document \<open>/a.ly\<close>
  has one line; the only link of the output points to line 5 of it. \<open>Links.__init__\<close>
  binds the document, and the construction of the binding skips the key (5, 0). The URL
  is well formed and the binding is live, yet \<open>Links.cursor\<close> returns neither a
  cursor nor \<open>None\<close>: the \<open>KeyError\<close> of \<open>BoundLinks.cursor\<close> comes out of it, with
  \<open>load\<close> false and with \<open>load\<close> true.
\<close>

theorem Links_cursor_raises:
  "fst (Links_cursor id (\<lambda>filename. None)
      (Links_init id
         [\<lparr>doc_blocks = [\<lparr>block_text = ''c4'', block_tokens = []\<rparr>],
           doc_local_file = ''/a.ly'', doc_scratch_path = None\<rparr>]
         [[LinkBrowse ''textedit:///a.ly:5:0:0'' (7 :: nat)]])
      (LinkBrowse ''textedit:///a.ly:5:0:0'' 7) False) = Inl KeyError
   \<and> fst (Links_cursor id (\<lambda>filename. None)
      (Links_init id
         [\<lparr>doc_blocks = [\<lparr>block_text = ''c4'', block_tokens = []\<rparr>],
           doc_local_file = ''/a.ly'', doc_scratch_path = None\<rparr>]
         [[LinkBrowse ''textedit:///a.ly:5:0:0'' (7 :: nat)]])
      (LinkBrowse ''textedit:///a.ly:5:0:0'' 7) True) = Inl KeyError"
proof -
  have m: "textedit_match ''textedit:///a.ly:5:0:0'' = Some (''/a.ly'', ''5'', ''0'')"
    by (simp add: textedit_match_def match_tail_def expect_colon_def take_digits_def
        is_digit_def at_end_def)
  have links: "scan_pages id [[LinkBrowse ''textedit:///a.ly:5:0:0'' (7 :: nat)]]
      = [''/a.ly'' \<mapsto> [(5, 0) \<mapsto> [(0, 7)]]]"
    by (simp add: scan_pages_def scan_page_def add_link_def m readurl_def int_of_digits_def
        digit_value_def)
  have bound: "bl_cursor_dict
      (BoundLinks_init [\<lparr>block_text = ''c4'', block_tokens = []\<rparr>]
         [(5, 0) \<mapsto> [(0 :: nat, 7 :: nat)]]) (5, 0) = None"
    by (simp add: BoundLinks_init_def sorted_items_def bind_step_def findBlockByNumber_def)
  show ?thesis
    by (simp add: Links_cursor_def Links_init_def links m readurl_def int_of_digits_def
        digit_value_def BoundLinks_cursor_def bound)
qed

subsection \<open>The two backward scans\<close>

lemma scan_tokens_dropWhile:
  "scan_tokens prevcol col earlier toks =
     (case dropWhile (passed_over prevcol col) toks of
        [] \<Rightarrow> None
      | bt # rest \<Rightarrow>
          if pos (snd bt) \<le> prevcol then None
          else find_start (pair_name (snd bt)) 1 (rest @ earlier))"
proof (induction toks)
  case Nil
  show ?case by simp
next
  case (Cons bt toks)
  show ?case
  proof (cases "passed_over prevcol col bt")
    case True
    then have "scan_tokens prevcol col earlier (bt # toks) = scan_tokens prevcol col earlier toks"
      by (auto simp: passed_over_def ending_token_def split: token_class.splits)
    with True Cons.IH show ?thesis by simp
  next
    case False
    then show ?thesis
      by (auto simp: passed_over_def ending_token_def pair_name_def split: token_class.splits)
  qed
qed

lemma nesting_Cons:
  "nesting name (x # xs) =
     (if cls (snd x) = MatchEnd name then 1 else 0)
       - (if cls (snd x) = MatchStart name then 1 else 0) + nesting name xs"
  by (simp add: nesting_def)

lemma nesting_Nil: "nesting name [] = 0"
  by (simp add: nesting_def)

lemma matching_opener_Nil: "matching_opener name nest [] = None"
  by (simp add: matching_opener_def)

lemma matching_opener_Cons:
  "matching_opener name nest (x # xs) =
     (if cls (snd x) = MatchStart name \<and> nest - 1 = 0 then Some x
      else matching_opener name
             (nest + (if cls (snd x) = MatchEnd name then 1 else 0)
                - (if cls (snd x) = MatchStart name then 1 else 0)) xs)"
proof -
  define nest' where "nest' = nest + (if cls (snd x) = MatchEnd name then 1 else 0)
                - (if cls (snd x) = MatchStart name then 1 else 0)"
  define Q where "Q = (\<lambda>i. cls (snd ((x # xs) ! i)) = MatchStart name
                        \<and> nest + nesting name (take (Suc i) (x # xs)) = 0)"
  define Q' where "Q' = (\<lambda>i. cls (snd (xs ! i)) = MatchStart name
                        \<and> nest' + nesting name (take (Suc i) xs) = 0)"
  have upt: "[0..<length (x # xs)] = 0 # map Suc [0..<length xs]"
    by (simp add: upt_conv_Cons map_Suc_upt del: upt_Suc)
  have q0: "Q 0 = (cls (snd x) = MatchStart name \<and> nest - 1 = 0)"
    by (auto simp: Q_def nesting_Cons nesting_Nil)
  have qs: "Q (Suc i) = Q' i" for i
    by (auto simp: Q_def Q'_def nest'_def nesting_Cons)
  have flt: "filter Q (map Suc l) = map Suc (filter Q' l)" for l
    by (induction l) (simp_all add: qs)
  have case_map: "(case map Suc l of [] \<Rightarrow> None | i # _ \<Rightarrow> Some ((x # xs) ! i))
      = (case l of [] \<Rightarrow> None | i # _ \<Rightarrow> Some (xs ! i))" for l
    by (cases l) simp_all
  have lhs: "matching_opener name nest (x # xs) =
      (case filter Q (0 # map Suc [0..<length xs]) of
         [] \<Rightarrow> None | i # _ \<Rightarrow> Some ((x # xs) ! i))"
    unfolding matching_opener_def upt Q_def ..
  have rhs: "matching_opener name nest' xs =
      (case filter Q' [0..<length xs] of [] \<Rightarrow> None | i # _ \<Rightarrow> Some (xs ! i))"
    unfolding matching_opener_def Q'_def ..
  show ?thesis
  proof (cases "Q 0")
    case True
    then have "matching_opener name nest (x # xs) = Some x"
      unfolding lhs by simp
    with True q0 show ?thesis by simp
  next
    case False
    then have "matching_opener name nest (x # xs) = matching_opener name nest' xs"
      by (simp add: lhs rhs flt case_map)
    moreover have "\<not> (cls (snd x) = MatchStart name \<and> nest - 1 = 0)"
      using False q0 by simp
    ultimately show ?thesis unfolding nest'_def by (simp only: if_False)
  qed
qed

lemma find_start_matching_opener:
  "find_start name nest ts = matching_opener name nest ts"
proof (induction ts arbitrary: nest)
  case Nil
  show ?case by (simp add: matching_opener_Nil)
next
  case (Cons x xs)
  show ?case by (simp add: matching_opener_Cons Cons.IH)
qed

lemma scan_tokens_resolve:
  "scan_tokens prevcol col earlier toks =
     (case dropWhile (passed_over prevcol col) toks of
        [] \<Rightarrow> None
      | bt # rest \<Rightarrow>
          if pos (snd bt) \<le> prevcol then None
          else matching_opener (pair_name (snd bt)) 1 (rest @ earlier))"
  unfolding scan_tokens_dropWhile find_start_matching_opener ..

lemma scan_tokens_at_closer:
  assumes "list_all (passed_over prevcol col) pre"
    and "prevcol < pos (snd bt)" "pos (snd bt) \<le> col" "ending_token (snd bt)"
  shows "scan_tokens prevcol col earlier (pre @ bt # behind) =
     matching_opener (pair_name (snd bt)) 1 (behind @ earlier)"
proof -
  have d: "dropWhile (passed_over prevcol col) (pre @ bt # behind) = bt # behind"
    using assms by (simp add: list_all_iff passed_over_def)
  show ?thesis unfolding scan_tokens_resolve d using assms(2) by simp
qed

lemma scan_tokens_at_bound:
  assumes "list_all (passed_over prevcol col) pre" and "pos (snd bt) \<le> prevcol"
  shows "scan_tokens prevcol col earlier (pre @ bt # behind) = None"
proof -
  have d: "dropWhile (passed_over prevcol col) (pre @ bt # behind) = bt # behind"
    using assms by (simp add: list_all_iff passed_over_def)
  show ?thesis unfolding scan_tokens_resolve d using assms(2) by simp
qed

lemma scan_tokens_exhausted:
  assumes "list_all (passed_over prevcol col) toks"
  shows "scan_tokens prevcol col earlier toks = None"
proof -
  have d: "dropWhile (passed_over prevcol col) toks = []"
    using assms by (simp add: list_all_iff)
  show ?thesis unfolding scan_tokens_resolve d by simp
qed

subsection \<open>Which token ends the first backward scan\<close>

text \<open>
  Claim C10, amended. The first backward scan of the point query passes over every
  token of the caret's line that starts after the lower bound and is not a recognized
  closer starting at or before the caret column: tokens right of the caret, and tokens
  at or left of the caret that are no recognized closer. It ends at the first token, read
  backward, that is not passed over. If that token is a recognized closer (it then starts
  after the lower bound and at or before the caret), the result is its matching opener
  among the tokens left of it, nesting counted from 1. If it starts at or before the
  lower bound, or if every token of the line is passed over, nothing is found. So a
  recognized closer further left on the line, behind tokens that are no closers, is the
  one that is resolved.
\<close>

theorem scan_tokens_first_closer:
  "scan_tokens prevcol col earlier toks =
     (case dropWhile (passed_over prevcol col) toks of
        [] \<Rightarrow> None
      | bt # rest \<Rightarrow>
          if pos (snd bt) \<le> prevcol then None
          else matching_opener (pair_name (snd bt)) 1 (rest @ earlier))
   \<and> (list_all (passed_over prevcol col) pre \<and> prevcol < pos (snd bt) \<and> pos (snd bt) \<le> col
        \<and> ending_token (snd bt)
      \<longrightarrow> scan_tokens prevcol col earlier (pre @ bt # behind)
            = matching_opener (pair_name (snd bt)) 1 (behind @ earlier))
   \<and> (list_all (passed_over prevcol col) pre \<and> pos (snd bt) \<le> prevcol
      \<longrightarrow> scan_tokens prevcol col earlier (pre @ bt # behind) = None)
   \<and> (list_all (passed_over prevcol col) toks
      \<longrightarrow> scan_tokens prevcol col earlier toks = None)"
  using scan_tokens_resolve[of prevcol col earlier toks]
    scan_tokens_at_closer[of prevcol col pre bt earlier behind]
    scan_tokens_at_bound[of prevcol col pre bt earlier behind]
    scan_tokens_exhausted[of prevcol col toks earlier]
  by blast

text \<open>
  The theorem at work on the line \<open>c( d) e f\<close> with the caret on \<open>e\<close>, column 6, and
  no lower bound: the tokens \<open>f\<close> and \<open>e\<close> are passed over, the slur end at column 4
  ends the scan and is resolved to the slur start at column 1.
\<close>

theorem scan_tokens_first_closer_witness:
  "list_all (passed_over (- 1) 6)
     [(0, \<lparr>pos = 8, cls = OtherToken\<rparr>), (0, \<lparr>pos = 6, cls = OtherToken\<rparr>)]
   \<and> (- 1 :: int) < pos (snd (0 :: nat, \<lparr>pos = 4, cls = MatchEnd ''slur''\<rparr>))
   \<and> pos (snd (0 :: nat, \<lparr>pos = 4, cls = MatchEnd ''slur''\<rparr>)) \<le> 6
   \<and> ending_token (snd (0 :: nat, \<lparr>pos = 4, cls = MatchEnd ''slur''\<rparr>))
   \<and> matching_opener (pair_name (snd (0 :: nat, \<lparr>pos = 4, cls = MatchEnd ''slur''\<rparr>))) 1
        ([(0, \<lparr>pos = 3, cls = OtherToken\<rparr>), (0, \<lparr>pos = 1, cls = MatchStart ''slur''\<rparr>),
          (0, \<lparr>pos = 0, cls = OtherToken\<rparr>)] @ [])
       = Some (0, \<lparr>pos = 1, cls = MatchStart ''slur''\<rparr>)"
  using scan_tokens_first_closer[of "- 1" 6 "[]" "[]"
      "[(0, \<lparr>pos = 8, cls = OtherToken\<rparr>), (0, \<lparr>pos = 6, cls = OtherToken\<rparr>)]"
      "(0, \<lparr>pos = 4, cls = MatchEnd ''slur''\<rparr>)"
      "[(0, \<lparr>pos = 3, cls = OtherToken\<rparr>), (0, \<lparr>pos = 1, cls = MatchStart ''slur''\<rparr>),
        (0, \<lparr>pos = 0, cls = OtherToken\<rparr>)]"]
  by (simp add: passed_over_def ending_token_def)

text \<open>
  Against claim C10 as stated. On the line \<open>c( d) e\<close> with cursors on \<open>c\<close>, on the
  slur start and on \<open>d\<close>, the caret is on \<open>e\<close>, at position 6. The nearest token at
  or before the caret is \<open>e\<close>, which is no closer. The scan does not end there: it
  goes on to the slur end at column 4, behind \<open>e\<close>, and finds its start at column 1,
  so that the query gives the slur start, index 1, and not the nearest cursor, index 2.
\<close>

theorem scan_tokens_closer_behind_counterexample:
  "scan_tokens 3 6 []
     [(0, \<lparr>pos = 6, cls = OtherToken\<rparr>), (0, \<lparr>pos = 4, cls = MatchEnd ''slur''\<rparr>),
      (0, \<lparr>pos = 3, cls = OtherToken\<rparr>), (0, \<lparr>pos = 1, cls = MatchStart ''slur''\<rparr>),
      (0, \<lparr>pos = 0, cls = OtherToken\<rparr>)]
     = Some (0, \<lparr>pos = 1, cls = MatchStart ''slur''\<rparr>)
   \<and> indices
     [\<lparr>block_text = ''c( d) e'', block_tokens =
         [\<lparr>pos = 0, cls = OtherToken\<rparr>, \<lparr>pos = 1, cls = MatchStart ''slur''\<rparr>,
          \<lparr>pos = 3, cls = OtherToken\<rparr>, \<lparr>pos = 4, cls = MatchEnd ''slur''\<rparr>,
          \<lparr>pos = 6, cls = OtherToken\<rparr>]\<rparr>]
     [0, 1, 3] \<lparr>anchor = 6, position = 6\<rparr> = Slice 1 2"
  by (simp add: indices_def indices_point_def caret_scan_def hasSelection_def findlink_def
      findlink_loop.simps blk_position_def block_position_def block_length_def
      backward_in_block_def backward_before_def)

subsection \<open>Point queries after the nearest preceding cursor\<close>

lemma findlink_nearest:
  assumes "sorted cursors" "idx < length cursors" "cursors ! idx \<le> p"
    and "\<forall>j<length cursors. cursors ! j \<le> p \<longrightarrow> j \<le> idx"
  shows "findlink cursors p = int idx"
proof -
  have le: "int idx \<le> findlink cursors p"
    using findlink_iff[OF assms(1,2), of p] assms(3) by simp
  define j where "j = nat (findlink cursors p)"
  have j: "findlink cursors p = int j" "j < length cursors"
    using le findlink_range[OF assms(1), of p] by (simp_all add: j_def)
  have "cursors ! j \<le> p" using findlink_iff[OF assms(1) j(2), of p] j(1) by simp
  then have "j \<le> idx" using assms(4) j(2) by simp
  with le j(1) show ?thesis by simp
qed

lemma scan_tokens_no_closer:
  assumes "list_all (\<lambda>bt. \<not> (pos (snd bt) \<le> col \<and> ending_token (snd bt)))
             (takeWhile (\<lambda>bt. prevcol < pos (snd bt)) toks)"
  shows "scan_tokens prevcol col earlier toks = None"
  using assms
proof (induction toks)
  case Nil
  show ?case by simp
next
  case (Cons bt toks)
  show ?case
  proof (cases "prevcol < pos (snd bt)")
    case False
    then show ?thesis by simp
  next
    case True
    with Cons.prems have po: "passed_over prevcol col bt"
      and rest: "list_all (\<lambda>bt. \<not> (pos (snd bt) \<le> col \<and> ending_token (snd bt)))
             (takeWhile (\<lambda>bt. prevcol < pos (snd bt)) toks)"
      by (simp_all add: passed_over_def)
    have "scan_tokens prevcol col earlier (bt # toks) = scan_tokens prevcol col earlier toks"
      using po by (simp only: scan_tokens_dropWhile dropWhile.simps if_True)
    then show ?thesis using Cons.IH[OF rest] by simp
  qed
qed

lemma indices_point_found:
  assumes "sorted_wrt (<) cursors" and "\<not> hasSelection c"
    and "idx < length cursors" and "cursors ! idx < position c"
    and "\<forall>j<length cursors. cursors ! j \<le> position c \<longrightarrow> j \<le> idx"
    and "caret_scan doc (cursors ! idx) (position c) = Some (ob, ot)"
    and "ridx < length cursors" and "cursors ! ridx = block_position doc ob + pos ot"
    and "findBlock doc (cursors ! ridx) = Some ob"
  shows "indices doc cursors c = Slice (int ridx) (int ridx + 1)"
proof -
  have srt: "sorted cursors" using assms(1) by (rule strict_sorted_imp_sorted)
  have f: "findlink cursors (position c) = int idx"
    using findlink_nearest[OF srt assms(3) _ assms(5)] assms(4) by simp
  have fl: "findlink cursors (block_position doc ob + pos ot) = int ridx"
    using findlink_exact[OF assms(1,7,8)] .
  show ?thesis
    using assms(2,4,9)
    by (simp add: indices_def indices_point_def f Let_def assms(6) fl)
qed

lemma indices_point_not_found:
  assumes "sorted_wrt (<) cursors" and "\<not> hasSelection c"
    and "idx < length cursors" and "cursors ! idx < position c"
    and "\<forall>j<length cursors. cursors ! j \<le> position c \<longrightarrow> j \<le> idx"
    and "caret_scan doc (cursors ! idx) (position c) = None"
  shows "indices doc cursors c =
     (if findBlock doc (cursors ! idx) = findBlock doc (position c)
      then Slice (int idx) (int idx + 1) else RetFalse)"
proof -
  have srt: "sorted cursors" using assms(1) by (rule strict_sorted_imp_sorted)
  have f: "findlink cursors (position c) = int idx"
    using findlink_nearest[OF srt assms(3) _ assms(5)] assms(4) by simp
  show ?thesis
    using assms(2,4)
    by (simp add: indices_def indices_point_def f Let_def assms(6))
qed

text \<open>
  Claim C1, amended. The binding's cursors are strictly increasing, the query has no
  selection, and \<open>idx\<close> is the nearest cursor at or before the caret, strictly before
  it. The lower bound \<open>prevcol\<close> of the first scan is that cursor's column when it is
  in the caret's block \<open>cb\<close>, and \<open>- 1\<close> otherwise; \<open>col\<close> is the caret's column.
  \<^item> If the first scan, having passed over the tokens \<open>pre\<close>, meets the recognized
    closer \<open>bt\<close> after the lower bound and at or before the caret, if the token \<open>ot\<close> of
    block \<open>ob\<close> is its matching opener among the tokens left of it, on the caret's line
    and on the lines before (same pair name, nesting counted from 1), and if the cursor
    \<open>ridx\<close> is exactly at that token, in its block, the result is the slice
    \<open>[ridx, ridx + 1)\<close>.
  \<^item> If that closer has no matching opener before the tokens run out, the result is the
    slice \<open>[idx, idx + 1)\<close> of the nearest cursor when that cursor is in the caret's
    block, and \<open>False\<close> (Clear) when it is in another block.
  \<^item> If no token of the caret's line after the lower bound is a recognized closer at or
    before the caret, the result is the same: the slice of the nearest cursor in the
    caret's block, \<open>False\<close> for a nearest cursor in another block. It is never \<open>None\<close>.
\<close>

theorem indices_point_after_anchor:
  fixes doc :: document and cursors :: "int list" and c :: textcursor and idx :: nat
  defines "cb \<equiv> findBlock doc (position c)"
  defines "prevcol \<equiv> (if findBlock doc (cursors ! idx) = cb
                        then cursors ! idx - blk_position doc cb else - 1)"
  defines "col \<equiv> position c - blk_position doc cb"
  defines "nearest \<equiv> (if findBlock doc (cursors ! idx) = cb
                        then Slice (int idx) (int idx + 1) else RetFalse)"
  assumes "sorted_wrt (<) cursors" and "\<not> hasSelection c"
    and "idx < length cursors" and "cursors ! idx < position c"
    and "\<forall>j<length cursors. cursors ! j \<le> position c \<longrightarrow> j \<le> idx"
  shows "(backward_in_block doc cb = pre @ bt # behind
          \<and> list_all (passed_over prevcol col) pre
          \<and> prevcol < pos (snd bt) \<and> pos (snd bt) \<le> col \<and> ending_token (snd bt)
          \<and> matching_opener (pair_name (snd bt)) 1 (behind @ backward_before doc cb)
              = Some (ob, ot)
          \<and> ridx < length cursors \<and> cursors ! ridx = block_position doc ob + pos ot
          \<and> findBlock doc (cursors ! ridx) = Some ob
          \<longrightarrow> indices doc cursors c = Slice (int ridx) (int ridx + 1))
    \<and> (backward_in_block doc cb = pre @ bt # behind
          \<and> list_all (passed_over prevcol col) pre
          \<and> prevcol < pos (snd bt) \<and> pos (snd bt) \<le> col \<and> ending_token (snd bt)
          \<and> matching_opener (pair_name (snd bt)) 1 (behind @ backward_before doc cb) = None
          \<longrightarrow> indices doc cursors c = nearest)
    \<and> (list_all (\<lambda>bt. \<not> (pos (snd bt) \<le> col \<and> ending_token (snd bt)))
            (takeWhile (\<lambda>bt. prevcol < pos (snd bt)) (backward_in_block doc cb))
          \<longrightarrow> indices doc cursors c = nearest)"
proof -
  have cs: "caret_scan doc (cursors ! idx) (position c)
      = scan_tokens prevcol col (backward_before doc cb) (backward_in_block doc cb)"
    by (simp add: caret_scan_def Let_def cb_def prevcol_def col_def)
  have nf: "indices doc cursors c = nearest"
    if "scan_tokens prevcol col (backward_before doc cb) (backward_in_block doc cb) = None"
    using indices_point_not_found[OF assms(5-9), of doc] that
    by (simp add: cs nearest_def cb_def)
  show ?thesis
  proof (intro conjI impI)
    assume a: "backward_in_block doc cb = pre @ bt # behind
          \<and> list_all (passed_over prevcol col) pre
          \<and> prevcol < pos (snd bt) \<and> pos (snd bt) \<le> col \<and> ending_token (snd bt)
          \<and> matching_opener (pair_name (snd bt)) 1 (behind @ backward_before doc cb)
              = Some (ob, ot)
          \<and> ridx < length cursors \<and> cursors ! ridx = block_position doc ob + pos ot
          \<and> findBlock doc (cursors ! ridx) = Some ob"
    then have "scan_tokens prevcol col (backward_before doc cb) (backward_in_block doc cb)
        = Some (ob, ot)"
      using scan_tokens_at_closer[of prevcol col pre bt "backward_before doc cb" behind]
      by simp
    then have "caret_scan doc (cursors ! idx) (position c) = Some (ob, ot)"
      by (simp add: cs)
    then show "indices doc cursors c = Slice (int ridx) (int ridx + 1)"
      using indices_point_found[OF assms(5-9), of doc ob ot ridx] a by blast
  next
    assume a: "backward_in_block doc cb = pre @ bt # behind
          \<and> list_all (passed_over prevcol col) pre
          \<and> prevcol < pos (snd bt) \<and> pos (snd bt) \<le> col \<and> ending_token (snd bt)
          \<and> matching_opener (pair_name (snd bt)) 1 (behind @ backward_before doc cb) = None"
    then have "scan_tokens prevcol col (backward_before doc cb) (backward_in_block doc cb)
        = None"
      using scan_tokens_at_closer[of prevcol col pre bt "backward_before doc cb" behind]
      by simp
    then show "indices doc cursors c = nearest" by (rule nf)
  next
    assume "list_all (\<lambda>bt. \<not> (pos (snd bt) \<le> col \<and> ending_token (snd bt)))
            (takeWhile (\<lambda>bt. prevcol < pos (snd bt)) (backward_in_block doc cb))"
    then have "scan_tokens prevcol col (backward_before doc cb) (backward_in_block doc cb)
        = None"
      by (rule scan_tokens_no_closer)
    then show "indices doc cursors c = nearest" by (rule nf)
  qed
qed

text \<open>
  The theorem at work. On the two lines \<open>c(\<close> and \<open> d)\<close>, with cursors on \<open>c\<close>, on
  the slur start and on \<open>d\<close>, a caret on the slur end, at position 5, gives the slur
  start on the line before, index 1. On the line \<open>c )\<close> with a cursor on \<open>c\<close>, the
  slur end under the caret has no start: the result is the cursor on \<open>c\<close>. On the lines
  \<open>c(\<close> and \<open> d\<close> with cursors on \<open>c\<close> and on the slur start, a caret on \<open>d\<close> meets
  no slur end and the nearest cursor is on the other line: the result is \<open>False\<close>.
\<close>

theorem indices_point_after_anchor_witness:
  "sorted_wrt (<) [0, 1, 4 :: int] \<and> sorted_wrt (<) [0 :: int] \<and> sorted_wrt (<) [0, 1 :: int]
   \<and> \<not> hasSelection \<lparr>anchor = 5, position = 5\<rparr>
   \<and> \<not> hasSelection \<lparr>anchor = 2, position = 2\<rparr>
   \<and> \<not> hasSelection \<lparr>anchor = 4, position = 4\<rparr>
   \<and> matching_opener ''slur'' 1
        [(1, \<lparr>pos = 1, cls = OtherToken\<rparr>), (0, \<lparr>pos = 1, cls = MatchStart ''slur''\<rparr>),
         (0, \<lparr>pos = 0, cls = OtherToken\<rparr>)]
       = Some (0, \<lparr>pos = 1, cls = MatchStart ''slur''\<rparr>)
   \<and> matching_opener ''slur'' 1 [(0 :: nat, \<lparr>pos = 0, cls = OtherToken\<rparr>)] = None
   \<and> indices
        [\<lparr>block_text = ''c('', block_tokens =
            [\<lparr>pos = 0, cls = OtherToken\<rparr>, \<lparr>pos = 1, cls = MatchStart ''slur''\<rparr>]\<rparr>,
         \<lparr>block_text = '' d)'', block_tokens =
            [\<lparr>pos = 1, cls = OtherToken\<rparr>, \<lparr>pos = 2, cls = MatchEnd ''slur''\<rparr>]\<rparr>]
        [0, 1, 4] \<lparr>anchor = 5, position = 5\<rparr> = Slice 1 2
   \<and> indices
        [\<lparr>block_text = ''c )'', block_tokens =
            [\<lparr>pos = 0, cls = OtherToken\<rparr>, \<lparr>pos = 2, cls = MatchEnd ''slur''\<rparr>]\<rparr>]
        [0] \<lparr>anchor = 2, position = 2\<rparr> = Slice 0 1
   \<and> indices
        [\<lparr>block_text = ''c('', block_tokens =
            [\<lparr>pos = 0, cls = OtherToken\<rparr>, \<lparr>pos = 1, cls = MatchStart ''slur''\<rparr>]\<rparr>,
         \<lparr>block_text = '' d'', block_tokens = [\<lparr>pos = 1, cls = OtherToken\<rparr>]\<rparr>]
        [0, 1] \<lparr>anchor = 4, position = 4\<rparr> = RetFalse"
  using indices_point_after_anchor[where cursors = "[0, 1, 4]"
      and c = "\<lparr>anchor = 5, position = 5\<rparr>" and idx = 2
      and doc = "[\<lparr>block_text = ''c('', block_tokens =
            [\<lparr>pos = 0, cls = OtherToken\<rparr>, \<lparr>pos = 1, cls = MatchStart ''slur''\<rparr>]\<rparr>,
         \<lparr>block_text = '' d)'', block_tokens =
            [\<lparr>pos = 1, cls = OtherToken\<rparr>, \<lparr>pos = 2, cls = MatchEnd ''slur''\<rparr>]\<rparr>]"
      and pre = "[]" and bt = "(1, \<lparr>pos = 2, cls = MatchEnd ''slur''\<rparr>)"
      and behind = "[(1, \<lparr>pos = 1, cls = OtherToken\<rparr>)]"
      and ob = 0 and ot = "\<lparr>pos = 1, cls = MatchStart ''slur''\<rparr>" and ridx = 1]
    indices_point_after_anchor[where cursors = "[0]"
      and c = "\<lparr>anchor = 2, position = 2\<rparr>" and idx = 0
      and doc = "[\<lparr>block_text = ''c )'', block_tokens =
            [\<lparr>pos = 0, cls = OtherToken\<rparr>, \<lparr>pos = 2, cls = MatchEnd ''slur''\<rparr>]\<rparr>]"
      and pre = "[]" and bt = "(0, \<lparr>pos = 2, cls = MatchEnd ''slur''\<rparr>)"
      and behind = "[(0, \<lparr>pos = 0, cls = OtherToken\<rparr>)]"]
    indices_point_after_anchor[where cursors = "[0, 1]"
      and c = "\<lparr>anchor = 4, position = 4\<rparr>" and idx = 1
      and doc = "[\<lparr>block_text = ''c('', block_tokens =
            [\<lparr>pos = 0, cls = OtherToken\<rparr>, \<lparr>pos = 1, cls = MatchStart ''slur''\<rparr>]\<rparr>,
         \<lparr>block_text = '' d'', block_tokens = [\<lparr>pos = 1, cls = OtherToken\<rparr>]\<rparr>]"]
  by (simp add: hasSelection_def blk_position_def block_position_def
      block_length_def backward_in_block_def backward_before_def less_Suc_eq all_conj_distrib
      ending_token_def pair_name_def passed_over_def find_start_matching_opener[symmetric])

text \<open>
  Against claim C1 as stated. On the line \<open>c )\<close>, with the only cursor on \<open>c\<close>, a caret
  on the slur end finds a closer without an opener: the result is the slice of the
  cursor on \<open>c\<close>, not \<open>False\<close>. On the line \<open>c4 d\<close>, which has no closer at all, a
  caret on \<open>4\<close> gives the same slice, not \<open>None\<close>. And the order of the cursors
  matters: in the buffer of the lines \<open>a\<close> and \<open>( c)\<close>, the link table with the keys
  (1, 0), (1, 6) and (2, 0) is bound to cursors at 0, 6 and 2; a caret on the slur end,
  at position 5, resolves the slur start at position 2, which is the cursor of index 2,
  and the result is \<open>None\<close>.
\<close>

theorem indices_point_unmatched_counterexample:
  "indices
     [\<lparr>block_text = ''c )'', block_tokens =
         [\<lparr>pos = 0, cls = OtherToken\<rparr>, \<lparr>pos = 2, cls = MatchEnd ''slur''\<rparr>]\<rparr>]
     [0] \<lparr>anchor = 2, position = 2\<rparr> = Slice 0 1
   \<and> indices
     [\<lparr>block_text = ''c4 d'', block_tokens =
         [\<lparr>pos = 0, cls = OtherToken\<rparr>, \<lparr>pos = 1, cls = OtherToken\<rparr>,
          \<lparr>pos = 3, cls = OtherToken\<rparr>]\<rparr>]
     [0] \<lparr>anchor = 1, position = 1\<rparr> = Slice 0 1
   \<and> bl_cursors (BoundLinks_init
        [\<lparr>block_text = ''a'', block_tokens = [\<lparr>pos = 0, cls = OtherToken\<rparr>]\<rparr>,
         \<lparr>block_text = ''( c)'', block_tokens =
            [\<lparr>pos = 0, cls = MatchStart ''slur''\<rparr>, \<lparr>pos = 2, cls = OtherToken\<rparr>,
             \<lparr>pos = 3, cls = MatchEnd ''slur''\<rparr>]\<rparr>]
        [(1, 0) \<mapsto> [(0 :: nat, ''A'')], (1, 6) \<mapsto> [(0, ''B'')], (2, 0) \<mapsto> [(0, ''C'')]])
       = [0, 6, 2]
   \<and> indices
        [\<lparr>block_text = ''a'', block_tokens = [\<lparr>pos = 0, cls = OtherToken\<rparr>]\<rparr>,
         \<lparr>block_text = ''( c)'', block_tokens =
            [\<lparr>pos = 0, cls = MatchStart ''slur''\<rparr>, \<lparr>pos = 2, cls = OtherToken\<rparr>,
             \<lparr>pos = 3, cls = MatchEnd ''slur''\<rparr>]\<rparr>]
        [0, 6, 2] \<lparr>anchor = 5, position = 5\<rparr> = RetNone"
  by (simp add: indices_def indices_point_def caret_scan_def hasSelection_def findlink_def
      findlink_loop.simps blk_position_def block_position_def block_length_def
      backward_in_block_def backward_before_def
      BoundLinks_init_def sorted_items_def bind_step_def findBlockByNumber_def)

subsection \<open>Queries on cursors that are not in increasing order\<close>

lemma anchors_before_code:
  "anchors_before cursors e = set (filter (\<lambda>i. cursors ! i < e) [0..<length cursors])"
  by (auto simp: anchors_before_def)

lemma anchors_from_code:
  "anchors_from cursors s = set (filter (\<lambda>i. s \<le> cursors ! i) [0..<length cursors])"
  by (auto simp: anchors_from_def)

text \<open>
  Against claim C4 as stated. The buffer has the lines \<open>ab\<close> and \<open>cd\<close>, the link table
  the keys (1, 4) and (2, 0), bound to cursors at 4 and 3. For the selection from 4 to 5
  both cursors are before its end, so \<open>endIdx\<close> is 1, and the cursor of index 0 is at
  its start, so \<open>startIdx\<close> is 0: the claim has the slice \<open>[0, 2)\<close>. The binary search
  takes index 2 for the start and the query returns \<open>False\<close>.
\<close>

theorem indices_selection_unsorted_counterexample:
  "bl_cursors (BoundLinks_init
      [\<lparr>block_text = ''ab'', block_tokens = []\<rparr>, \<lparr>block_text = ''cd'', block_tokens = []\<rparr>]
      [(1, 4) \<mapsto> [(0 :: nat, ''A'')], (2, 0) \<mapsto> [(0, ''B'')]]) = [4, 3]
   \<and> selectionStart \<lparr>anchor = 4, position = 5\<rparr> = 4
   \<and> selectionEnd \<lparr>anchor = 4, position = 5\<rparr> = 5
   \<and> spec_selection [4, 3] 4 5 = Slice 0 2
   \<and> indices
      [\<lparr>block_text = ''ab'', block_tokens = []\<rparr>, \<lparr>block_text = ''cd'', block_tokens = []\<rparr>]
      [4, 3] \<lparr>anchor = 4, position = 5\<rparr> = RetFalse"
  by (simp add: BoundLinks_init_def sorted_items_def bind_step_def findBlockByNumber_def
      block_position_def block_length_def selectionStart_def selectionEnd_def
      spec_selection_def anchors_before_code anchors_from_code
      indices_def indices_selection_def hasSelection_def findlink_def findlink_loop.simps)

text \<open>
  Against claim C5 as stated, on the same binding, with cursors at 4 and 3. A caret at
  4 is exactly on the cursor of index 0, and the query returns the slice \<open>[1, 2)\<close> of
  the other cursor. A caret at 3 is before the position of the first cursor, and the
  query returns the same slice, not \<open>None\<close>.
\<close>

theorem indices_point_unsorted_counterexample:
  "bl_cursors (BoundLinks_init
      [\<lparr>block_text = ''ab'', block_tokens = []\<rparr>, \<lparr>block_text = ''cd'', block_tokens = []\<rparr>]
      [(1, 4) \<mapsto> [(0 :: nat, ''A'')], (2, 0) \<mapsto> [(0, ''B'')]]) = [4, 3]
   \<and> indices
      [\<lparr>block_text = ''ab'', block_tokens = []\<rparr>, \<lparr>block_text = ''cd'', block_tokens = []\<rparr>]
      [4, 3] \<lparr>anchor = 4, position = 4\<rparr> = Slice 1 2
   \<and> indices
      [\<lparr>block_text = ''ab'', block_tokens = []\<rparr>, \<lparr>block_text = ''cd'', block_tokens = []\<rparr>]
      [4, 3] \<lparr>anchor = 3, position = 3\<rparr> = Slice 1 2"
  by (simp add: BoundLinks_init_def sorted_items_def bind_step_def findBlockByNumber_def
      block_position_def block_length_def blk_position_def caret_scan_def
      backward_in_block_def backward_before_def
      indices_def indices_point_def hasSelection_def findlink_def findlink_loop.simps)

end
